theory Spec2Isabelle
  imports Complex_Main "HOL-Library.Word" "HOL-Library.Log_Nat"
begin

section \<open>Numeric types of the source\<close>

text \<open>
  The depth camera hands the plugin a buffer of C++ \<open>float\<close> samples (IEEE-754 binary32);
  the plugin compares each sample with \<open>double\<close> constants, divides it by a \<open>double\<close>
  constant and casts the quotient to \<open>uint16_t\<close>. A binary32 sample is modelled by its
  32-bit pattern, a floating-point value by \<open>fp\<close>: not-a-number, the two infinities, or
  the exact rational value of a finite number (the sign of zero is not tracked: no
  operation of the plugin distinguishes the two zeros).
\<close>

type_synonym f32 = "32 word"
type_synonym u16 = "16 word"
type_synonym u32 = "32 word"

datatype fp = NaN | PInf | NInf | Fin rat

definition f32_sign :: "f32 \<Rightarrow> bool" where
  "f32_sign w = (unat w div 2 ^ 31 = 1)"

definition f32_exp :: "f32 \<Rightarrow> nat" where
  "f32_exp w = unat w div 2 ^ 23 mod 2 ^ 8"

definition f32_frac :: "f32 \<Rightarrow> nat" where
  "f32_frac w = unat w mod 2 ^ 23"

text \<open>
  Magnitude of a finite binary32 number: \<open>frac * 2^-149\<close> for a subnormal (biased
  exponent 0), \<open>(2^23 + frac) * 2^(exp - 150)\<close> otherwise; both are
  \<open>significand * 2^(exp - 1) / 2^149\<close> with truncating subtraction on \<open>nat\<close>.
\<close>

definition f32_mag :: "f32 \<Rightarrow> rat" where
  "f32_mag w =
     of_nat ((if f32_exp w = 0 then f32_frac w else 2 ^ 23 + f32_frac w) * 2 ^ (f32_exp w - 1))
       / 2 ^ 149"

definition f32_val :: "f32 \<Rightarrow> fp" where
  "f32_val w =
     (if f32_exp w = 255
      then (if f32_frac w = 0 then (if f32_sign w then NInf else PInf) else NaN)
      else Fin (if f32_sign w then - f32_mag w else f32_mag w))"

text \<open>\<open>ilog2 x\<close> is the binary exponent \<open>\<lfloor>log\<^sub>2 x\<rfloor>\<close> of a positive rational.\<close>

definition ilog2 :: "rat \<Rightarrow> int" where
  "ilog2 x = (case quotient_of x of (p, q) \<Rightarrow>
     (let e0 = bitlen p - bitlen q in if 2 powi e0 \<le> x then e0 else e0 - 1))"

text \<open>Rounding to the nearest integer, ties to even.\<close>

definition rne :: "rat \<Rightarrow> int" where
  "rne q = (let n = \<lfloor>q\<rfloor>; f = q - of_int n
            in if f < 1 / 2 then n else if 1 / 2 < f then n + 1
               else if even n then n else n + 1)"

text \<open>
  Rounding of an exact result to binary64 (53-bit significand, round to nearest, ties to
  even, gradual underflow below \<open>2^-1022\<close>); \<open>double_of_rat\<close> adds the overflow to
  infinity.
\<close>

definition round_double :: "rat \<Rightarrow> rat" where
  "round_double x =
     (if x = 0 then 0
      else (let a = \<bar>x\<bar>; e = max (ilog2 a) (- 1022); u = 2 powi (e - 52)
            in sgn x * of_int (rne (a / u)) * u))"

definition double_of_rat :: "rat \<Rightarrow> fp" where
  "double_of_rat r =
     (let d = round_double r
      in if 2 ^ 1024 \<le> \<bar>d\<bar> then (if 0 < d then PInf else NInf) else Fin d)"

text \<open>The comparison \<open><\<close> of IEEE-754: false as soon as one operand is not a number.\<close>

fun fp_less :: "fp \<Rightarrow> fp \<Rightarrow> bool" where
  "fp_less NaN _ = False"
| "fp_less _ NaN = False"
| "fp_less PInf _ = False"
| "fp_less _ NInf = False"
| "fp_less NInf _ = True"
| "fp_less (Fin a) PInf = True"
| "fp_less (Fin a) (Fin b) = (a < b)"

text \<open>
  \<open>x / c\<close> in binary64 for a finite constant \<open>c > 0\<close> (the only division of the plugin
  is by \<open>DEPTH_SCALE_M\<close>).
\<close>

fun double_div :: "fp \<Rightarrow> rat \<Rightarrow> fp" where
  "double_div NaN c = NaN"
| "double_div PInf c = PInf"
| "double_div NInf c = NInf"
| "double_div (Fin x) c = double_of_rat (x / c)"

text \<open>
  The cast \<open>(uint16_t) d\<close> of a \<open>double\<close>: the value is truncated towards zero; the
  behaviour is undefined (\<open>None\<close>) when the truncated value is not representable in
  \<open>uint16_t\<close>, in particular for a not-a-number or an infinity.
\<close>

fun to_uint16 :: "fp \<Rightarrow> u16 option" where
  "to_uint16 (Fin r) =
     (let t = (if 0 \<le> r then \<lfloor>r\<rfloor> else \<lceil>r\<rceil>)
      in if 0 \<le> t \<and> t \<le> 65535 then Some (word_of_int t) else None)"
| "to_uint16 _ = None"

section \<open>Constants of the plugin\<close>

text \<open>
  A decimal literal of type \<open>double\<close> denotes the binary64 number nearest to it;
  \<open>UINT16_MAX\<close> is the integer 65535, converted to \<open>double\<close> without error.
\<close>

definition DEPTH_NEAR_CLIP_M :: rat where
  "DEPTH_NEAR_CLIP_M = round_double (3 / 10)"

definition DEPTH_FAR_CLIP_M :: rat where
  "DEPTH_FAR_CLIP_M = round_double 10"

definition DEPTH_SCALE_M :: rat where
  "DEPTH_SCALE_M = round_double (1 / 1000)"

definition UINT16_MAX :: rat where
  "UINT16_MAX = 65535"

definition DEPTH_CAMERA_NAME :: string where "DEPTH_CAMERA_NAME = ''depth''"
definition COLOR_CAMERA_NAME :: string where "COLOR_CAMERA_NAME = ''color''"
definition IRED1_CAMERA_NAME :: string where "IRED1_CAMERA_NAME = ''ired1''"
definition IRED2_CAMERA_NAME :: string where "IRED2_CAMERA_NAME = ''ired2''"

definition DEPTH_CAMERA_TOPIC :: string where "DEPTH_CAMERA_TOPIC = ''depth''"
definition COLOR_CAMERA_TOPIC :: string where "COLOR_CAMERA_TOPIC = ''color''"
definition IRED1_CAMERA_TOPIC :: string where "IRED1_CAMERA_TOPIC = ''infrared''"
definition IRED2_CAMERA_TOPIC :: string where "IRED2_CAMERA_TOPIC = ''infrared2''"

section \<open>The depth encoder\<close>

text \<open>
  Body of the conversion loop of \<open>OnNewDepthFrame\<close>: the sample is promoted to
  \<open>double\<close> (exactly) and tested against the four guards in the order of the source;
  a sample that passes none of them is divided by \<open>DEPTH_SCALE_M\<close> and cast.
\<close>

definition encode :: "f32 \<Rightarrow> u16 option" where
  "encode w =
     (let d = f32_val w
      in if fp_less d (Fin DEPTH_NEAR_CLIP_M) \<or>
            fp_less (Fin DEPTH_FAR_CLIP_M) d \<or>
            fp_less (Fin (round_double (DEPTH_SCALE_M * UINT16_MAX))) d \<or>
            fp_less d (Fin 0)
         then Some 0
         else to_uint16 (double_div d DEPTH_SCALE_M))"

text \<open>
  The clip condition in the words of the specification, with the exact decimal
  constants \<open>NEAR_CLIP = 0.3\<close>, \<open>FAR_CLIP = 10.0\<close>, \<open>SCALE = 0.001\<close> and
  \<open>MAX_FIXED_VALUE = 65535\<close>.
\<close>

definition spec_clipped :: "fp \<Rightarrow> bool" where
  "spec_clipped v \<longleftrightarrow>
     fp_less v (Fin 0) \<or> fp_less v (Fin (3 / 10)) \<or> fp_less (Fin 10) v \<or>
     fp_less (Fin ((1 / 1000) * 65535)) v"

datatype fault = NullDereference | OutOfBoundsAccess | UndefinedFloatCast

text \<open>
  \<open>for (unsigned int i = 0; i < imageSize; ++i)\<close>: the source indexes both buffers
  without a bounds check, so an index outside a buffer is a fault of the model.
\<close>

function convert_loop :: "nat \<Rightarrow> nat \<Rightarrow> f32 list \<Rightarrow> u16 list \<Rightarrow> fault + u16 list" where
  "convert_loop i imageSize depthDataFloat depthMap =
     (if i < imageSize
      then (if length depthDataFloat \<le> i \<or> length depthMap \<le> i then Inl OutOfBoundsAccess
            else (case encode (depthDataFloat ! i) of
                    None \<Rightarrow> Inl UndefinedFloatCast
                  | Some d \<Rightarrow> convert_loop (i + 1) imageSize depthDataFloat (depthMap[i := d])))
      else Inr depthMap)"
  by pat_completeness auto
termination
  by (relation "measure (\<lambda>(i, imageSize, _, _). imageSize - i)") auto

declare convert_loop.simps [simp del]

section \<open>Cameras, messages and the state of the plugin\<close>

record DepthCamera =
  ImageWidth :: u32
  ImageHeight :: u32
  ImageDepth :: u32
  DepthData :: "f32 list"

record Time =
  sec :: int
  nsec :: int

datatype PixelFormat = UNKNOWN_PIXEL_FORMAT | L_INT16 | R_FLOAT32

text \<open>
  \<open>set_data (ptr, size)\<close> copies \<open>size\<close> bytes; the payload keeps the samples copied
  and the byte count passed.
\<close>

datatype payload = NoData | FloatSamples "f32 list" | DepthSamples "u16 list"

record ImageStamped =
  time :: Time
  width :: u32
  height :: u32
  pixel_format :: PixelFormat
  step :: u32
  data :: payload
  data_size :: nat

definition empty_msg :: ImageStamped where
  "empty_msg = \<lparr>time = \<lparr>sec = 0, nsec = 0\<rparr>, width = 0, height = 0,
     pixel_format = UNKNOWN_PIXEL_FORMAT, step = 0, data = NoData, data_size = 0\<rparr>"

datatype Publisher = depthPub | depthViewPub | colorPub | ired1Pub | ired2Pub

datatype Callback = OnNewDepthFrameCb | OnNewFrameCb "nat option" Publisher | OnUpdateCb

text \<open>
  \<open>RealSensePluginPrivate\<close>: the four renderer pointers (\<open>None\<close> is \<open>nullptr\<close>), the one
  device depth buffer \<open>depthMap\<close>, and the effects of the plugin on its collaborators:
  the publishers advertised (with their topics), the event connections made, the
  messages published, the lines written to \<open>std::cerr\<close>, and the number of times
  \<open>depthMap.resize\<close> has changed the buffer.
\<close>

record RealSensePluginPrivate =
  depthCam :: "nat option"
  colorCam :: "nat option"
  ired1Cam :: "nat option"
  ired2Cam :: "nat option"
  depthMap :: "u16 list"
  advertised :: "(Publisher \<times> string) list"
  connections :: "Callback list"
  published :: "(Publisher \<times> ImageStamped) list"
  cerr :: "string list"
  resizes :: nat

text \<open>The constructor: null renderer pointers, an empty vector, nothing done yet.\<close>

definition RealSensePlugin :: RealSensePluginPrivate where
  "RealSensePlugin = \<lparr>depthCam = None, colorCam = None, ired1Cam = None, ired2Cam = None,
     depthMap = [], advertised = [], connections = [], published = [], cerr = [],
     resizes = 0\<rparr>"

section \<open>The frame buffer store\<close>

text \<open>\<open>std::vector::resize\<close>: truncate, or append value-initialised samples.\<close>

definition resize :: "nat \<Rightarrow> u16 list \<Rightarrow> u16 list" where
  "resize n xs = take n xs @ replicate (n - length xs) 0"

text \<open>
  The size check at the head of \<open>OnNewDepthFrame\<close> (the \<open>ensureCapacity\<close> of the
  specification). \<open>alloc\<close> tells whether the allocator can satisfy a resize; \<open>None\<close> is
  the \<open>std::bad_alloc\<close> caught by the source, which leaves the vector as it was (the
  strong guarantee of \<open>std::vector::resize\<close>). The allocator is asked at every resize,
  also at one that shrinks the vector or stays within its capacity, where
  \<open>std::vector\<close> does not allocate: the model allows more failures than the source can
  meet, never fewer.
\<close>

definition ensureCapacity ::
  "bool \<Rightarrow> nat \<Rightarrow> RealSensePluginPrivate \<Rightarrow> RealSensePluginPrivate option" where
  "ensureCapacity alloc imageSize p =
     (if length (depthMap p) \<noteq> imageSize
      then (if alloc
            then Some (p\<lparr>depthMap := resize imageSize (depthMap p), resizes := resizes p + 1\<rparr>)
            else None)
      else Some p)"

section \<open>The depth frame callback\<close>

text \<open>
  \<open>GetSimTime k\<close> is the value returned by the \<open>k\<close>-th call of
  \<open>world->GetSimTime()\<close> made by the callback (counted from 0). The camera is read
  as one value: its dimensions and its float buffer do not change during a callback.
  The message \<open>msg\<close> is one object, filled and published twice. Byte counts are of
  type \<open>size_t\<close>, wide enough for \<open>4 * imageSize\<close>, hence \<open>nat\<close>; \<open>imageSize\<close> and the
  stride are \<open>unsigned int\<close> products and wrap at 32 bits.
\<close>

definition OnNewDepthFrame ::
  "DepthCamera \<Rightarrow> (nat \<Rightarrow> Time) \<Rightarrow> bool \<Rightarrow> RealSensePluginPrivate
     \<Rightarrow> fault + RealSensePluginPrivate" where
  "OnNewDepthFrame cam GetSimTime alloc p =
     (let imageSize = ImageWidth cam * ImageHeight cam
      in case ensureCapacity alloc (unat imageSize) p of
           None \<Rightarrow>
             Inr (p\<lparr>cerr := cerr p @
                    [''RealSensePlugin: depthMap allocation failed: std::bad_alloc'']\<rparr>)
         | Some p1 \<Rightarrow>
             (let msg = empty_msg\<lparr>time := GetSimTime 0,
                          width := ImageWidth cam, height := ImageHeight cam,
                          pixel_format := R_FLOAT32,
                          step := ImageWidth cam * ImageDepth cam\<rparr>;
                  depthDataFloat = DepthData cam
              in if length depthDataFloat < unat imageSize then Inl OutOfBoundsAccess
                 else
                   (let msg = msg\<lparr>data := FloatSamples (take (unat imageSize) depthDataFloat),
                                  data_size := 4 * unat imageSize\<rparr>;
                        p2 = p1\<lparr>published := published p1 @ [(depthViewPub, msg)]\<rparr>
                    in case convert_loop 0 (unat imageSize) depthDataFloat (depthMap p2) of
                         Inl f \<Rightarrow> Inl f
                       | Inr m \<Rightarrow>
                           (let p3 = p2\<lparr>depthMap := m\<rparr>;
                                msg = msg\<lparr>time := GetSimTime 1,
                                         width := ImageWidth cam, height := ImageHeight cam,
                                         pixel_format := L_INT16,
                                         step := ImageWidth cam * ImageDepth cam,
                                         data := DepthSamples (depthMap p3),
                                         data_size := 2 * unat imageSize\<rparr>
                            in Inr (p3\<lparr>published := published p3 @ [(depthPub, msg)]\<rparr>)))))"

text \<open>
  The two messages of a depth frame as the callback packs them: the view message
  (packed first, from the float buffer) and the device message (packed after the
  conversion, from \<open>depthMap\<close>).
\<close>

definition view_msg :: "DepthCamera \<Rightarrow> Time \<Rightarrow> ImageStamped" where
  "view_msg cam t = \<lparr>time = t, width = ImageWidth cam, height = ImageHeight cam,
     pixel_format = R_FLOAT32, step = ImageWidth cam * ImageDepth cam,
     data = FloatSamples (take (unat (ImageWidth cam * ImageHeight cam)) (DepthData cam)),
     data_size = 4 * unat (ImageWidth cam * ImageHeight cam)\<rparr>"

definition device_msg :: "DepthCamera \<Rightarrow> Time \<Rightarrow> u16 list \<Rightarrow> ImageStamped" where
  "device_msg cam t m = \<lparr>time = t, width = ImageWidth cam, height = ImageHeight cam,
     pixel_format = L_INT16, step = ImageWidth cam * ImageDepth cam,
     data = DepthSamples m,
     data_size = 2 * unat (ImageWidth cam * ImageHeight cam)\<rparr>"

section \<open>Setup\<close>

text \<open>
  A sensor registered with the sensor manager: a depth camera sensor or a camera sensor,
  each holding a (possibly null) pointer to its renderer, or a sensor of another class.
  \<open>GetSensor\<close> returns a null pointer for a name it does not know.
\<close>

datatype Sensor = DepthCameraSensor "nat option" | CameraSensor "nat option" | OtherSensor

text \<open>
  \<open>std::dynamic_pointer_cast<sensors::DepthCameraSensor>(s)->DepthCamera()\<close>: the cast
  yields a null pointer unless \<open>s\<close> points to a depth camera sensor, and the call
  through a null pointer is a fault.
\<close>

fun DepthCamera_of :: "Sensor option \<Rightarrow> fault + nat option" where
  "DepthCamera_of (Some (DepthCameraSensor c)) = Inr c"
| "DepthCamera_of _ = Inl NullDereference"

fun Camera_of :: "Sensor option \<Rightarrow> fault + nat option" where
  "Camera_of (Some (CameraSensor c)) = Inr c"
| "Camera_of _ = Inl NullDereference"

text \<open>
  \<open>Load\<close>: the four lookups in the order of the source, then the four null checks, each
  with its line on \<open>std::cerr\<close> and its \<open>return\<close>, then the five publishers and the
  five connections. The pointers to the model, the world and the transport node, and
  the line written to \<open>std::cout\<close>, have no bearing on what follows and are left out.
\<close>

definition rsTopicRoot :: "string \<Rightarrow> string" where
  "rsTopicRoot modelName = ''~/'' @ modelName @ ''/rs/stream/''"

definition Load ::
  "(string \<Rightarrow> Sensor option) \<Rightarrow> string \<Rightarrow> RealSensePluginPrivate
     \<Rightarrow> fault + RealSensePluginPrivate" where
  "Load GetSensor modelName p =
     (case DepthCamera_of (GetSensor DEPTH_CAMERA_NAME) of Inl f \<Rightarrow> Inl f | Inr dc \<Rightarrow>
      case Camera_of (GetSensor IRED1_CAMERA_NAME) of Inl f \<Rightarrow> Inl f | Inr i1 \<Rightarrow>
      case Camera_of (GetSensor IRED2_CAMERA_NAME) of Inl f \<Rightarrow> Inl f | Inr i2 \<Rightarrow>
      case Camera_of (GetSensor COLOR_CAMERA_NAME) of Inl f \<Rightarrow> Inl f | Inr cc \<Rightarrow>
        (let p = p\<lparr>depthCam := dc, ired1Cam := i1, ired2Cam := i2, colorCam := cc\<rparr>
         in if depthCam p = None
            then Inr (p\<lparr>cerr := cerr p @
                         [''RealSensePlugin: Depth Camera has not been found'']\<rparr>)
            else if ired1Cam p = None
            then Inr (p\<lparr>cerr := cerr p @
                         [''RealSensePlugin: InfraRed Camera 1 has not been found'']\<rparr>)
            else if ired2Cam p = None
            then Inr (p\<lparr>cerr := cerr p @
                         [''RealSensePlugin: InfraRed Camera 2 has not been found'']\<rparr>)
            else if colorCam p = None
            then Inr (p\<lparr>cerr := cerr p @
                         [''RealSensePlugin: Color Camera has not been found'']\<rparr>)
            else Inr (p\<lparr>advertised := advertised p @
                           [(depthViewPub, rsTopicRoot modelName @ DEPTH_CAMERA_TOPIC @ ''_view''),
                            (depthPub, rsTopicRoot modelName @ DEPTH_CAMERA_TOPIC),
                            (ired1Pub, rsTopicRoot modelName @ IRED1_CAMERA_TOPIC),
                            (ired2Pub, rsTopicRoot modelName @ IRED2_CAMERA_TOPIC),
                            (colorPub, rsTopicRoot modelName @ COLOR_CAMERA_TOPIC)],
                         connections := connections p @
                           [OnNewDepthFrameCb,
                            OnNewFrameCb (ired1Cam p) ired1Pub,
                            OnNewFrameCb (ired2Cam p) ired2Pub,
                            OnNewFrameCb (colorCam p) colorPub,
                            OnUpdateCb]\<rparr>)))"

section \<open>Scenarios\<close>

text \<open>
  The 2 x 2 depth camera of the end-to-end scenario, with native pixel depth \<open>d\<close>. Its
  float buffer holds the binary32 numbers nearest to 0.5, 11.0, -0.1 and 9.999 (the
  first two are exact).
\<close>

definition scenario_cam :: "u32 \<Rightarrow> DepthCamera" where
  "scenario_cam d = \<lparr>ImageWidth = 2, ImageHeight = 2, ImageDepth = d,
     DepthData = [0x3F000000, 0x41300000, 0xBDCCCCCD, 0x411FFBE7]\<rparr>"

text \<open>A depth camera of width 0, with four bytes per pixel.\<close>

definition empty_cam :: DepthCamera where
  "empty_cam = \<lparr>ImageWidth = 0, ImageHeight = 0, ImageDepth = 4, DepthData = []\<rparr>"

text \<open>A simulation clock that stands still, and one that advances between two reads.\<close>

definition steady_clock :: "Time \<Rightarrow> nat \<Rightarrow> Time" where
  "steady_clock t k = t"

definition ticking_clock :: "nat \<Rightarrow> Time" where
  "ticking_clock k = \<lparr>sec = int k, nsec = 0\<rparr>"

text \<open>
  A depth camera of 65536 x 65536 pixels: the product of its dimensions is \<open>2^32\<close>, and
  \<open>imageSize\<close> wraps to 0, so that the callback reads none of its float samples (the
  buffer is left empty here).
\<close>

definition huge_cam :: DepthCamera where
  "huge_cam = \<lparr>ImageWidth = 65536, ImageHeight = 65536, ImageDepth = 4, DepthData = []\<rparr>"

text \<open>The camera of the scenario with a not-a-number as its second sample.\<close>

definition nan_cam :: DepthCamera where
  "nan_cam = \<lparr>ImageWidth = 2, ImageHeight = 2, ImageDepth = 4,
     DepthData = [0x3F000000, 0x7FC00000, 0xBDCCCCCD, 0x411FFBE7]\<rparr>"

text \<open>A model with the depth and the two infrared sensors, and no sensor named \<open>color\<close>.\<close>

definition sensors_without_color :: "string \<Rightarrow> Sensor option" where
  "sensors_without_color name =
     (if name = ''depth'' then Some (DepthCameraSensor (Some 1))
      else if name = ''ired1'' then Some (CameraSensor (Some 2))
      else if name = ''ired2'' then Some (CameraSensor (Some 3))
      else None)"

text \<open>The same model, complete, with a color sensor whose renderer is missing.\<close>

definition sensors_null_color :: "string \<Rightarrow> Sensor option" where
  "sensors_null_color name =
     (if name = ''color'' then Some (CameraSensor None) else sensors_without_color name)"

section \<open>Rounding to binary64\<close>

lemma bitlen_powi_bounds:
  assumes "0 < p"
  shows "(2::rat) powi (bitlen p - 1) \<le> of_int p" and "of_int p < (2::rat) powi bitlen p"
proof -
  have b1: "1 \<le> bitlen p"
    using assms bitlen_eq_zero_iff[of p] bitlen_nonneg[of p] by linarith
  from bitlen_bounds[OF assms]
  have lo: "2 ^ nat (bitlen p - 1) \<le> p" and hi: "p < 2 ^ nat (bitlen p)" by simp_all
  have "(of_int (2 ^ nat (bitlen p - 1)) :: rat) \<le> of_int p"
    using lo by (simp only: of_int_le_iff)
  then show "(2::rat) powi (bitlen p - 1) \<le> of_int p"
    using b1 by (simp add: power_int_nonneg_exp)
  have "(of_int p :: rat) < of_int (2 ^ nat (bitlen p))"
    using hi by (simp only: of_int_less_iff)
  then show "of_int p < (2::rat) powi bitlen p"
    using b1 by (simp add: power_int_nonneg_exp)
qed

lemma ilog2_bounds:
  assumes "0 < x"
  shows "2 powi ilog2 x \<le> x" and "x < 2 powi (ilog2 x + 1)"
proof -
  obtain p q where pq: "quotient_of x = (p, q)" by force
  have q: "0 < q" using quotient_of_denom_pos[OF pq] .
  have x: "x = of_int p / of_int q" using quotient_of_div[OF pq] .
  have p: "0 < p" using assms q x by (simp add: zero_less_divide_iff)
  define bp where "bp = bitlen p"
  define bq where "bq = bitlen q"
  note P = bitlen_powi_bounds[OF p, folded bp_def]
  note Q = bitlen_powi_bounds[OF q, folded bq_def]
  have qpos: "(0::rat) < of_int q" using q by simp
  have "x * of_int q < 2 powi bp" using P(2) x qpos by simp
  moreover have "x * 2 powi (bq - 1) \<le> x * of_int q"
    using Q(1) assms by (simp add: mult_left_mono)
  ultimately have "x * 2 powi (bq - 1) < 2 powi bp" by linarith
  then have "x < 2 powi bp / 2 powi (bq - 1)"
    by (simp add: pos_less_divide_eq)
  moreover have "(2::rat) powi (bp - bq + 1) = 2 powi bp / 2 powi (bq - 1)"
    by (simp add: power_int_diff power_int_add)
  ultimately have hi: "x < 2 powi (bp - bq + 1)"
    by simp
  have "2 powi (bp - 1) \<le> x * of_int q" using P(1) x qpos by simp
  moreover have "x * of_int q < x * 2 powi bq"
    using Q(2) assms by (simp add: mult_strict_left_mono)
  ultimately have "2 powi (bp - 1) < x * 2 powi bq" by linarith
  then have "2 powi (bp - 1) / 2 powi bq < x"
    by (simp add: pos_divide_less_eq)
  moreover have "(2::rat) powi (bp - bq - 1) = 2 powi (bp - 1) / 2 powi bq"
    by (simp add: power_int_diff)
  ultimately have lo: "2 powi (bp - bq - 1) < x"
    by simp
  have e: "ilog2 x = (if 2 powi (bp - bq) \<le> x then bp - bq else bp - bq - 1)"
    by (simp add: ilog2_def pq bp_def bq_def Let_def)
  show "2 powi ilog2 x \<le> x"
    using lo by (simp add: e)
  show "x < 2 powi (ilog2 x + 1)"
    using hi by (auto simp add: e not_le)
qed

lemma ilog2_eqI:
  assumes "2 powi e \<le> x" and "x < 2 powi (e + 1)"
  shows "ilog2 x = e"
proof -
  have "(0::rat) < 2 powi e" by simp
  then have x: "0 < x" using assms(1) by linarith
  note B = ilog2_bounds[OF x]
  have "(2::rat) powi e < 2 powi (ilog2 x + 1)" using assms(1) B(2) by linarith
  then have 1: "e < ilog2 x + 1"
    using power_int_increasing[of "ilog2 x + 1" e "2::rat"] by (cases "e < ilog2 x + 1") auto
  have "(2::rat) powi ilog2 x < 2 powi (e + 1)" using assms(2) B(1) by linarith
  then have 2: "ilog2 x < e + 1"
    using power_int_increasing[of "e + 1" "ilog2 x" "2::rat"] by (cases "ilog2 x < e + 1") auto
  from 1 2 show ?thesis by linarith
qed

lemma rne_of_int [simp]: "rne (of_int n) = n"
  by (simp add: rne_def)

lemma rne_error: "\<bar>of_int (rne q) - q\<bar> \<le> 1 / 2"
proof -
  have "of_int \<lfloor>q\<rfloor> \<le> q" "q < of_int \<lfloor>q\<rfloor> + 1" by linarith+
  then show ?thesis by (auto simp add: rne_def Let_def)
qed

lemma rne_near:
  assumes "\<bar>of_int n - q\<bar> < 1 / 2"
  shows "rne q = n"
proof -
  have "\<bar>of_int (rne q) - (of_int n :: rat)\<bar> < 1"
    using rne_error[of q] assms by linarith
  then have "\<bar>(of_int (rne q - n) :: rat)\<bar> < 1" by simp
  then have "\<bar>rne q - n\<bar> < 1"
    by (metis of_int_abs of_int_less_1_iff)
  then show ?thesis by linarith
qed

lemma round_double_binade:
  assumes "2 powi e \<le> x" and "x < 2 powi (e + 1)" and "- 1022 \<le> e"
  shows "round_double x = of_int (rne (x / 2 powi (e - 52))) * 2 powi (e - 52)"
proof -
  have "(0::rat) < 2 powi e" by simp
  then have x: "0 < x" using assms(1) by linarith
  have "ilog2 x = e" using assms(1,2) by (rule ilog2_eqI)
  then show ?thesis
    using x assms(3) by (simp add: round_double_def Let_def max_def)
qed

lemma round_double_nat_binade:
  assumes "2 ^ j \<le> y" and "y < 2 ^ (j + 1)" and "j \<le> 52"
  shows "round_double y = of_int (rne (y * 2 ^ (52 - j))) / 2 ^ (52 - j)"
proof -
  have "round_double y = of_int (rne (y / 2 powi (int j - 52))) * 2 powi (int j - 52)"
  proof (rule round_double_binade)
    show "2 powi int j \<le> y" using assms(1) by simp
    show "y < 2 powi (int j + 1)" using assms(2) by (simp add: power_int_add)
    show "- 1022 \<le> int j" by simp
  qed
  moreover have "(2::rat) powi (int j - 52) = 1 / 2 ^ (52 - j)"
  proof -
    have "int j - 52 = - int (52 - j)" using assms(3) by simp
    then have "(2::rat) powi (int j - 52) = 2 powi (- int (52 - j))" by (rule arg_cong)
    also have "\<dots> = 1 / 2 powi int (52 - j)" by (rule power_int_minus_divide)
    also have "\<dots> = 1 / 2 ^ (52 - j)" by (simp only: power_int_of_nat)
    finally show ?thesis .
  qed
  ultimately show ?thesis by simp
qed

lemma half_ulp: "j \<le> 52 \<Longrightarrow> (1::rat) / 2 ^ (53 - j) = (1 / 2) / 2 ^ (52 - j)"
proof -
  assume "j \<le> 52"
  then have "53 - j = Suc (52 - j)" by simp
  then show ?thesis by simp
qed

lemma scaled_abs:
  fixes a y s :: rat
  assumes "0 < s"
  shows "\<bar>a / s - y\<bar> = \<bar>a - y * s\<bar> / s"
proof -
  have "a / s - y = (a - y * s) / s"
    using assms by (simp add: diff_divide_distrib)
  then show ?thesis using assms by (simp add: abs_divide)
qed

lemma round_double_error:
  assumes "2 ^ j \<le> y" and "y < 2 ^ (j + 1)" and "j \<le> 52"
  shows "\<bar>round_double y - y\<bar> \<le> 1 / 2 ^ (53 - j)"
proof -
  define s :: rat where "s = 2 ^ (52 - j)"
  have s: "0 < s" by (simp add: s_def)
  define a :: rat where "a = of_int (rne (y * s))"
  have "\<bar>a - y * s\<bar> \<le> 1 / 2" unfolding a_def by (rule rne_error)
  then have "\<bar>a - y * s\<bar> / s \<le> (1 / 2) / s"
    using s by (rule_tac divide_right_mono) simp_all
  then have "\<bar>a / s - y\<bar> \<le> (1 / 2) / s"
    using scaled_abs[OF s, of a y] by simp
  moreover have "round_double y = a / s"
    using round_double_nat_binade[OF assms] by (simp add: a_def s_def)
  ultimately show ?thesis
    using half_ulp[OF assms(3)] by (simp add: s_def)
qed

lemma round_double_to_int:
  assumes "2 ^ j \<le> y" and "y < 2 ^ (j + 1)" and "j \<le> 52"
    and "\<bar>of_int k - y\<bar> < 1 / 2 ^ (53 - j)"
  shows "round_double y = of_int k"
proof -
  define s :: rat where "s = 2 ^ (52 - j)"
  have s: "0 < s" by (simp add: s_def)
  have "\<bar>of_int k - y\<bar> < (1 / 2) / s"
    using assms(4) half_ulp[OF assms(3)] by (simp add: s_def)
  then have "\<bar>of_int k - y\<bar> * s < 1 / 2"
    using s by (simp only: pos_less_divide_eq)
  moreover have "\<bar>of_int k - y\<bar> * s = \<bar>(of_int k - y) * s\<bar>"
    using s by (simp add: abs_mult)
  moreover have "(of_int k - y) * s = of_int (k * 2 ^ (52 - j)) - y * s"
    by (simp add: s_def left_diff_distrib)
  ultimately have "\<bar>of_int (k * 2 ^ (52 - j)) - y * s\<bar> < 1 / 2" by simp
  then have "rne (y * s) = k * 2 ^ (52 - j)" by (rule rne_near)
  then show ?thesis
    using round_double_nat_binade[OF assms(1-3)] by (simp add: s_def)
qed

lemma binade_cases:
  fixes y :: rat
  assumes "256 \<le> y" and "y < 16384"
  obtains j :: nat where "8 \<le> j" and "j \<le> 13" and "2 ^ j \<le> y" and "y < 2 ^ (j + 1)"
proof -
  consider "y < 512" | "512 \<le> y" "y < 1024" | "1024 \<le> y" "y < 2048"
    | "2048 \<le> y" "y < 4096" | "4096 \<le> y" "y < 8192" | "8192 \<le> y"
    by linarith
  then show ?thesis
  proof cases
    case 1 then show ?thesis using assms that[of 8] by simp
  next
    case 2 then show ?thesis using that[of 9] by simp
  next
    case 3 then show ?thesis using that[of 10] by simp
  next
    case 4 then show ?thesis using that[of 11] by simp
  next
    case 5 then show ?thesis using that[of 12] by simp
  next
    case 6 then show ?thesis using assms that[of 13] by simp
  qed
qed

lemma round_double_error_range:
  assumes "256 \<le> y" and "y < 16384"
  shows "\<bar>round_double y - y\<bar> \<le> 1 / 2 ^ 40"
proof -
  from assms obtain j :: nat where j: "8 \<le> j" "j \<le> 13" "2 ^ j \<le> y" "y < 2 ^ (j + 1)"
    by (rule binade_cases)
  have "\<bar>round_double y - y\<bar> \<le> 1 / 2 ^ (53 - j)"
    using j by (intro round_double_error) simp_all
  moreover have "(2::rat) ^ 40 \<le> 2 ^ (53 - j)"
    using j(2) by (intro power_increasing) simp_all
  then have "(1::rat) / 2 ^ (53 - j) \<le> 1 / 2 ^ 40"
    by (intro divide_left_mono) simp_all
  ultimately show ?thesis by linarith
qed

lemma round_double_to_int_range:
  assumes "256 \<le> y" and "y < 16384"
    and "0 \<le> of_int k - y" and "of_int k - y \<le> 24 * y / 2 ^ 60"
  shows "round_double y = of_int k"
proof -
  from assms(1,2) obtain j :: nat where j: "8 \<le> j" "j \<le> 13" "2 ^ j \<le> y" "y < 2 ^ (j + 1)"
    by (rule binade_cases)
  define t :: rat where "t = 2 ^ (53 - j)"
  define h :: rat where "h = 1 / t"
  have t: "0 < t" by (simp add: t_def)
  have h: "0 < h" using t by (simp add: h_def)
  have "(2::rat) ^ j * 2 ^ (53 - j) = 2 ^ (j + (53 - j))" by (simp only: power_add)
  also have "j + (53 - j) = 53" using j(2) by simp
  finally have "(2::rat) ^ j = 2 ^ 53 / t"
    using t by (simp add: t_def field_simps)
  then have jt: "(2::rat) ^ j = 9007199254740992 * h" by (simp add: h_def)
  have "y < 2 * (9007199254740992 * h)" using j(4) jt by simp
  then have "24 * y / 1152921504606846976 < h" using h by linarith
  then have "\<bar>of_int k - y\<bar> < 1 / 2 ^ (53 - j)"
    using assms(3,4) by (simp add: t_def h_def)
  with j show ?thesis by (intro round_double_to_int) simp_all
qed

lemma scaled_floor:
  fixes M :: int
  assumes "10066330 \<le> M" and "M \<le> 335544320"
  shows "\<lfloor>round_double ((of_int M / 2 ^ 25) / (1152921504606847 / 2 ^ 60))\<rfloor> = (125 * M) div 2 ^ 22"
proof -
  define m :: rat where "m = of_int M"
  define y :: rat where "y = (m / 2 ^ 25) / (1152921504606847 / 2 ^ 60)"
  define k where "k = (125 * M) div 2 ^ 22"
  define r where "r = (125 * M) mod 2 ^ 22"
  define X :: rat where "X = 125 * m / 2 ^ 22"
  have m: "10066330 \<le> m" "m \<le> 335544320"
    using assms by (simp_all add: m_def)
  have ym: "y = m * (34359738368 / 1152921504606847)"
    by (simp add: y_def)
  have yX: "X - y = 24 * y / 2 ^ 60"
    by (simp add: ym X_def)
  have ylo: "256 \<le> y" using m(1) by (simp add: ym)
  have yhi: "y < 16384" using m(2) by (simp add: ym)
  have "125 * M = k * 2 ^ 22 + r"
    by (simp add: k_def r_def)
  then have "(of_int (125 * M) :: rat) = of_int (k * 2 ^ 22 + r)" by (rule arg_cong)
  then have Xk: "X = of_int k + of_int r / 2 ^ 22"
    by (simp add: X_def m_def)
  have r: "0 \<le> r" "r < 2 ^ 22" by (simp_all add: r_def)
  show ?thesis
  proof (cases "r = 0")
    case True
    then have "X = of_int k" using Xk by simp
    then have "round_double y = of_int k"
      using yX ylo yhi by (intro round_double_to_int_range) simp_all
    then show ?thesis by (simp add: y_def m_def k_def)
  next
    case False
    then have "1 \<le> r" "r \<le> 2 ^ 22 - 1" using r by simp_all
    then have rr: "(1::rat) \<le> of_int r" "(of_int r :: rat) \<le> 4194303"
      by (simp_all add: of_int_le_numeral_iff[symmetric] del: of_int_le_numeral_iff)
    have e: "\<bar>round_double y - y\<bar> \<le> 1 / 2 ^ 40"
      using ylo yhi by (rule round_double_error_range)
    have e': "\<bar>round_double y - y\<bar> \<le> 1 / 1099511627776" using e by simp
    have yX': "X - y = 24 * y / 1152921504606846976" using yX by simp
    have Xk': "X = of_int k + of_int r / 4194304" using Xk by simp
    have "of_int k \<le> round_double y" using e' yX' Xk' rr yhi by linarith
    moreover have "round_double y < of_int k + 1" using e' yX' Xk' rr ylo by linarith
    ultimately have "\<lfloor>round_double y\<rfloor> = k" by (simp add: floor_unique)
    then show ?thesis by (simp add: y_def m_def k_def)
  qed
qed

section \<open>Values of the constants\<close>

lemma DEPTH_SCALE_M_val: "DEPTH_SCALE_M = 1152921504606847 / 2 ^ 60"
proof -
  have "round_double (1 / 1000) = of_int (rne ((1 / 1000) / 2 powi (- 10 - 52))) * 2 powi (- 10 - 52)"
    by (rule round_double_binade) simp_all
  also have "(1 / 1000) / 2 powi (- 10 - 52) = (4611686018427387904 / 1000 :: rat)"
    by (simp add: power_int_minus)
  also have "rne (4611686018427387904 / 1000) = 4611686018427388"
    by (rule rne_near) simp
  finally show ?thesis by (simp add: DEPTH_SCALE_M_def power_int_minus)
qed

lemma DEPTH_NEAR_CLIP_M_val: "DEPTH_NEAR_CLIP_M = 5404319552844595 / 2 ^ 54"
proof -
  have "round_double (3 / 10) = of_int (rne ((3 / 10) / 2 powi (- 2 - 52))) * 2 powi (- 2 - 52)"
    by (rule round_double_binade) simp_all
  also have "(3 / 10) / 2 powi (- 2 - 52) = (54043195528445952 / 10 :: rat)"
    by (simp add: power_int_minus)
  also have "rne (54043195528445952 / 10) = 5404319552844595"
    by (rule rne_near) simp
  finally show ?thesis by (simp add: DEPTH_NEAR_CLIP_M_def power_int_minus)
qed

lemma DEPTH_FAR_CLIP_M_val: "DEPTH_FAR_CLIP_M = 10"
proof -
  have "round_double 10 = of_int 10"
    by (rule round_double_to_int[where j = 3]) simp_all
  then show ?thesis by (simp add: DEPTH_FAR_CLIP_M_def)
qed

lemma overflow_guard_val:
  "round_double (DEPTH_SCALE_M * UINT16_MAX) = 2305807824841605 / 2 ^ 45"
proof -
  have v: "DEPTH_SCALE_M * UINT16_MAX = 75556710804409718145 / 2 ^ 60"
    by (simp add: DEPTH_SCALE_M_val UINT16_MAX_def)
  have "round_double (75556710804409718145 / 2 ^ 60)
          = of_int (rne ((75556710804409718145 / 2 ^ 60) * 2 ^ (52 - 6))) / 2 ^ (52 - 6)"
    by (rule round_double_nat_binade) simp_all
  also have "(75556710804409718145 / 2 ^ 60) * 2 ^ (52 - 6) = (75556710804409718145 / 16384 :: rat)"
    by simp
  also have "rne (75556710804409718145 / 16384) = 4611615649683210"
    by (rule rne_near) simp
  finally show ?thesis by (simp add: v)
qed


section \<open>Binary32 samples within the clip range\<close>

lemma f32_mag_nonneg: "0 \<le> f32_mag w"
  by (simp add: f32_mag_def)

lemma f32_mag_grid:
  assumes "1 / 4 \<le> f32_mag w"
  shows "\<exists>M::int. f32_mag w = of_int M / 2 ^ 25"
proof -
  define E where "E = f32_exp w - 1"
  define N where "N = (if f32_exp w = 0 then f32_frac w else 2 ^ 23 + f32_frac w)"
  have mag: "f32_mag w = of_nat (N * 2 ^ E) / 2 ^ 149"
    by (simp add: f32_mag_def N_def E_def)
  have "f32_frac w < 2 ^ 23" by (simp add: f32_frac_def)
  then have N: "N < 2 ^ 24" by (simp add: N_def)
  have "124 \<le> E"
  proof (rule ccontr)
    assume "\<not> 124 \<le> E"
    then have "E \<le> 123" by simp
    then have "(2::nat) ^ E \<le> 2 ^ 123" by (intro power_increasing) simp_all
    then have "N * 2 ^ E \<le> N * 2 ^ 123" by (rule mult_le_mono2)
    also have "\<dots> < 2 ^ 24 * 2 ^ 123" using N by simp
    finally have "N * 2 ^ E < 2 ^ 147" by simp
    then have "(of_nat (N * 2 ^ E) :: rat) < of_nat (2 ^ 147)"
      by (simp only: of_nat_less_iff)
    then have "f32_mag w < 1 / 4" by (simp add: mag)
    with assms show False by simp
  qed
  then obtain t where t: "E = 124 + t" using le_Suc_ex by blast
  have "f32_mag w = of_nat (N * 2 ^ t) * 2 ^ 124 / 2 ^ 149"
    by (simp add: mag t power_add)
  also have "\<dots> = of_int (int (N * 2 ^ t)) / 2 ^ 25" by simp
  finally show ?thesis by blast
qed

lemma f32_val_Fin_pos:
  assumes "f32_val w = Fin x" and "0 < x"
  shows "x = f32_mag w"
proof -
  have "x = (if f32_sign w then - f32_mag w else f32_mag w)"
    using assms(1) by (simp add: f32_val_def split: if_splits)
  then show ?thesis using assms(2) f32_mag_nonneg[of w] by (simp split: if_splits)
qed

lemma f32_grid:
  assumes "f32_val w = Fin x" and "DEPTH_NEAR_CLIP_M \<le> x" and "x \<le> 10"
  obtains M :: int where "x = of_int M / 2 ^ 25" and "10066330 \<le> M" and "M \<le> 335544320"
proof -
  have lo: "5404319552844595 / 18014398509481984 \<le> x"
    using assms(2) by (simp add: DEPTH_NEAR_CLIP_M_val)
  then have "0 < x" by linarith
  then have xm: "x = f32_mag w" using assms(1) f32_val_Fin_pos by blast
  have "1 / 4 \<le> x" using lo by linarith
  then obtain M :: int where M: "x = of_int M / 2 ^ 25"
    using f32_mag_grid[of w] xm by auto
  have "(10066329 :: rat) < of_int M" using lo by (simp add: M)
  then have "10066329 < M" by simp
  moreover have "(of_int M :: rat) \<le> 335544320" using assms(3) by (simp add: M)
  then have "M \<le> 335544320" by simp
  ultimately show ?thesis using M that by simp
qed

lemma uint_u16_of_int:
  assumes "0 \<le> k" and "k \<le> 65535"
  shows "uint (word_of_int k :: u16) = k"
proof -
  have "k < 2 ^ 16" using assms(2) by simp
  then have "take_bit 16 k = k" using assms(1) by (simp add: take_bit_int_eq_self)
  then show ?thesis by (simp add: uint_word_of_int_eq)
qed

lemma encode_in_range:
  assumes "f32_val w = Fin x" and "DEPTH_NEAR_CLIP_M \<le> x" and "x \<le> 10"
  shows "encode w = Some (word_of_int \<lfloor>1000 * x\<rfloor>)"
    and "300 \<le> \<lfloor>1000 * x\<rfloor>" and "\<lfloor>1000 * x\<rfloor> \<le> 10000" and "3 / 10 \<le> x"
proof -
  from assms obtain M :: int where M: "x = of_int M / 2 ^ 25" "10066330 \<le> M" "M \<le> 335544320"
    by (rule f32_grid)
  define k where "k = (125 * M) div 2 ^ 22"
  define d where "d = round_double (x / DEPTH_SCALE_M)"
  have Mr: "(10066330 :: rat) \<le> of_int M" "(of_int M :: rat) \<le> 335544320"
    using M(2,3) by simp_all
  show x3: "3 / 10 \<le> x" using Mr(1) by (simp add: M(1))
  have "1000 * x = of_int (125 * M) / of_int (2 ^ 22)" by (simp add: M(1))
  then have fl: "\<lfloor>1000 * x\<rfloor> = k"
    by (simp only: floor_divide_of_int_eq k_def)
  have "300 * 2 ^ 22 \<le> 125 * M" using M(2) by simp
  then have "(300 * 2 ^ 22) div 2 ^ 22 \<le> (125 * M) div 2 ^ 22" by (rule zdiv_mono1) simp
  then have k1: "300 \<le> k" by (simp add: k_def)
  have "125 * M \<le> 10000 * 2 ^ 22" using M(3) by simp
  then have "(125 * M) div 2 ^ 22 \<le> (10000 * 2 ^ 22) div 2 ^ 22" by (rule zdiv_mono1) simp
  then have k2: "k \<le> 10000" by (simp add: k_def)
  show "300 \<le> \<lfloor>1000 * x\<rfloor>" "\<lfloor>1000 * x\<rfloor> \<le> 10000" using k1 k2 fl by simp_all
  have "\<lfloor>d\<rfloor> = k"
    using scaled_floor[OF M(2,3)] by (simp add: d_def k_def M(1) DEPTH_SCALE_M_val)
  then have dk: "of_int k \<le> d" "d < of_int k + 1" by linarith+
  have kr: "(300 :: rat) \<le> of_int k" "(of_int k :: rat) \<le> 10000"
    using k1 k2 by simp_all
  have d0: "0 \<le> d" "d < 10001" using dk kr by linarith+
  have "(10001 :: rat) \<le> 2 ^ 1024" by simp
  then have "\<not> 2 ^ 1024 \<le> \<bar>d\<bar>" using d0 by linarith
  then have "double_div (Fin x) DEPTH_SCALE_M = Fin d"
    by (simp add: double_of_rat_def d_def Let_def)
  moreover have "to_uint16 (Fin d) = Some (word_of_int k)"
    using d0 \<open>\<lfloor>d\<rfloor> = k\<close> k1 k2 by (simp add: Let_def)
  moreover have "\<not> x < DEPTH_NEAR_CLIP_M" "\<not> DEPTH_FAR_CLIP_M < x" "\<not> x < 0"
    "\<not> round_double (DEPTH_SCALE_M * UINT16_MAX) < x"
    using assms(2,3) x3 by (simp_all add: DEPTH_FAR_CLIP_M_val overflow_guard_val)
  ultimately show "encode w = Some (word_of_int \<lfloor>1000 * x\<rfloor>)"
    using assms(1) fl by (simp add: encode_def Let_def)
qed

lemma encode_clipped:
  assumes "f32_val w = Fin x" and "x < DEPTH_NEAR_CLIP_M \<or> 10 < x"
  shows "encode w = Some 0"
  using assms by (auto simp add: encode_def Let_def DEPTH_FAR_CLIP_M_val)

lemma encode_inf:
  assumes "f32_val w = PInf \<or> f32_val w = NInf"
  shows "encode w = Some 0"
  using assms by (auto simp add: encode_def Let_def)

lemma encode_nan:
  assumes "f32_val w = NaN"
  shows "encode w = None"
  using assms by (simp add: encode_def Let_def)

lemma near_clip_exact:
  assumes "f32_val w = Fin x"
  shows "x < DEPTH_NEAR_CLIP_M \<longleftrightarrow> x < 3 / 10"
proof
  assume "x < DEPTH_NEAR_CLIP_M"
  then show "x < 3 / 10" by (simp add: DEPTH_NEAR_CLIP_M_val)
next
  assume a: "x < 3 / 10"
  show "x < DEPTH_NEAR_CLIP_M"
  proof (rule ccontr)
    assume "\<not> x < DEPTH_NEAR_CLIP_M"
    then have "DEPTH_NEAR_CLIP_M \<le> x" by simp
    moreover have "x \<le> 10" using a by simp
    ultimately have "3 / 10 \<le> x" using assms encode_in_range(4) by blast
    with a show False by simp
  qed
qed

section \<open>The conversion loop\<close>

lemma convert_loop_length:
  "convert_loop i n src dst = Inr m \<Longrightarrow> length m = length dst"
proof (induction i n src dst rule: convert_loop.induct)
  case (1 i n src dst)
  show ?case
  proof (cases "i < n")
    case True
    with "1.prems" obtain d where d: "encode (src ! i) = Some d"
      and ok: "\<not> (length src \<le> i \<or> length dst \<le> i)"
      and rec: "convert_loop (i + 1) n src (dst[i := d]) = Inr m"
      by (auto simp add: convert_loop.simps[of i n src dst] split: if_splits option.splits)
    from "1.IH"[OF True ok d rec] show ?thesis by simp
  next
    case False
    with "1.prems" show ?thesis by (simp add: convert_loop.simps[of i n src dst])
  qed
qed

lemma convert_loop_samples:
  "convert_loop i n src dst = Inr m \<Longrightarrow>
     (\<forall>j. i \<le> j \<and> j < n \<longrightarrow> j < length src \<and> j < length dst \<and> encode (src ! j) = Some (m ! j)) \<and>
     (\<forall>j. j < i \<or> n \<le> j \<longrightarrow> m ! j = dst ! j)"
proof (induction i n src dst rule: convert_loop.induct)
  case (1 i n src dst)
  show ?case
  proof (cases "i < n")
    case True
    with "1.prems" obtain d where d: "encode (src ! i) = Some d"
      and ok: "\<not> (length src \<le> i \<or> length dst \<le> i)"
      and rec: "convert_loop (i + 1) n src (dst[i := d]) = Inr m"
      by (auto simp add: convert_loop.simps[of i n src dst] split: if_splits option.splits)
    note IH = "1.IH"[OF True ok d rec]
    from IH have mi: "m ! i = (dst[i := d]) ! i" by simp
    have A: "\<forall>j. i \<le> j \<and> j < n \<longrightarrow> j < length src \<and> j < length dst \<and> encode (src ! j) = Some (m ! j)"
    proof (intro allI impI)
      fix j assume j: "i \<le> j \<and> j < n"
      show "j < length src \<and> j < length dst \<and> encode (src ! j) = Some (m ! j)"
      proof (cases "j = i")
        case True
        then show ?thesis using ok d mi by simp
      next
        case False
        then have "i + 1 \<le> j \<and> j < n" using j by simp
        then show ?thesis using IH by simp
      qed
    qed
    have B: "\<forall>j. j < i \<or> n \<le> j \<longrightarrow> m ! j = dst ! j"
    proof (intro allI impI)
      fix j assume j: "j < i \<or> n \<le> j"
      then have "j < i + 1 \<or> n \<le> j" by auto
      then have "m ! j = (dst[i := d]) ! j" using IH by blast
      moreover have "j \<noteq> i" using j True by auto
      ultimately show "m ! j = dst ! j" by simp
    qed
    from A B show ?thesis by simp
  next
    case False
    with "1.prems" show ?thesis by (auto simp add: convert_loop.simps[of i n src dst])
  qed
qed

lemma convert_loop_defined:
  "n \<le> length src \<Longrightarrow> n \<le> length dst \<Longrightarrow>
   (\<forall>j. i \<le> j \<and> j < n \<longrightarrow> encode (src ! j) \<noteq> None) \<Longrightarrow>
   \<exists>m. convert_loop i n src dst = Inr m"
proof (induction i n src dst rule: convert_loop.induct)
  case (1 i n src dst)
  show ?case
  proof (cases "i < n")
    case True
    then obtain d where d: "encode (src ! i) = Some d" using "1.prems"(3) by auto
    have ok: "\<not> (length src \<le> i \<or> length dst \<le> i)" using True "1.prems"(1,2) by simp
    have "\<exists>m. convert_loop (i + 1) n src (dst[i := d]) = Inr m"
      using "1.IH"[OF True ok d] "1.prems" by simp
    then show ?thesis using True ok d by (simp add: convert_loop.simps[of i n src dst])
  next
    case False
    then show ?thesis by (simp add: convert_loop.simps[of i n src dst])
  qed
qed

lemma convert_loop_no_out_of_bounds:
  "n \<le> length src \<Longrightarrow> n \<le> length dst \<Longrightarrow> convert_loop i n src dst \<noteq> Inl OutOfBoundsAccess"
proof (induction i n src dst rule: convert_loop.induct)
  case (1 i n src dst)
  show ?case
  proof (cases "i < n")
    case True
    have ok: "\<not> (length src \<le> i \<or> length dst \<le> i)" using True "1.prems"(1,2) by simp
    show ?thesis
    proof (cases "encode (src ! i)")
      case None
      then show ?thesis using True ok by (simp add: convert_loop.simps[of i n src dst])
    next
      case (Some d)
      have "convert_loop (i + 1) n src (dst[i := d]) \<noteq> Inl OutOfBoundsAccess"
        using "1.IH"[OF True ok Some] "1.prems" by simp
      then show ?thesis using True ok Some by (simp add: convert_loop.simps[of i n src dst])
    qed
  next
    case False
    then show ?thesis by (simp add: convert_loop.simps[of i n src dst])
  qed
qed

lemma convert_loop_cong:
  "take n src = take n src' \<Longrightarrow> length dst = length dst' \<Longrightarrow> length dst \<le> n \<Longrightarrow>
   take i dst = take i dst' \<Longrightarrow>
   convert_loop i n src dst = convert_loop i n src' dst'"
proof (induction i n src dst arbitrary: dst' rule: convert_loop.induct)
  case (1 i n src dst)
  note L = convert_loop.simps[of i n src dst]
  note R = convert_loop.simps[of i n src' dst']
  show ?case
  proof (cases "i < n")
    case True
    have "length (take n src) = length (take n src')" using "1.prems"(1) by simp
    then have len: "length src \<le> i \<longleftrightarrow> length src' \<le> i"
      using True by (simp add: min_def split: if_splits)
    have len': "length dst \<le> i \<longleftrightarrow> length dst' \<le> i"
      using "1.prems"(2) by simp
    show ?thesis
    proof (cases "length src \<le> i \<or> length dst \<le> i")
      case bad: True
      then have bad': "length src' \<le> i \<or> length dst' \<le> i" using len len' by blast
      have "convert_loop i n src dst = Inl OutOfBoundsAccess"
        using True bad by (subst L) simp
      moreover have "convert_loop i n src' dst' = Inl OutOfBoundsAccess"
        using True bad' by (subst R) simp
      ultimately show ?thesis by simp
    next
      case ok: False
      then have ok': "\<not> (length src' \<le> i \<or> length dst' \<le> i)" using len len' by blast
      have "take n src ! i = src ! i" "take n src' ! i = src' ! i" using True by simp_all
      then have si: "src' ! i = src ! i" using "1.prems"(1) by simp
      show ?thesis
      proof (cases "encode (src ! i)")
        case None
        have "convert_loop i n src dst = Inl UndefinedFloatCast"
          using True ok None by (subst L) simp
        moreover have "convert_loop i n src' dst' = Inl UndefinedFloatCast"
          using True ok' None si by (subst R) simp
        ultimately show ?thesis by simp
      next
        case (Some d)
        have "take (i + 1) (dst[i := d]) = take (i + 1) (dst'[i := d])"
          using ok ok' "1.prems"(4) by (simp add: take_Suc_conv_app_nth)
        then have "convert_loop (i + 1) n src (dst[i := d]) = convert_loop (i + 1) n src' (dst'[i := d])"
          using "1.prems"(1,2,3) by (intro "1.IH"[OF True ok Some]) simp_all
        moreover have "convert_loop i n src dst = convert_loop (i + 1) n src (dst[i := d])"
          using True ok Some by (subst L) simp
        moreover have "convert_loop i n src' dst' = convert_loop (i + 1) n src' (dst'[i := d])"
          using True ok' Some si by (subst R) simp
        ultimately show ?thesis by simp
      qed
    qed
  next
    case False
    then have "n \<le> i" by simp
    then have "length dst \<le> i" "length dst' \<le> i" using "1.prems"(2,3) by simp_all
    then have t: "take i dst = dst" "take i dst' = dst'" by simp_all
    have "dst = take i dst" by (rule t(1)[symmetric])
    also have "\<dots> = take i dst'" by (rule "1.prems"(4))
    also have "\<dots> = dst'" by (rule t(2))
    finally have "dst = dst'" .
    moreover have "convert_loop i n src dst = Inr dst"
      using False by (subst L) simp
    moreover have "convert_loop i n src' dst' = Inr dst'"
      using False by (subst R) simp
    ultimately show ?thesis by simp
  qed
qed

section \<open>The depth frame callback, step by step\<close>

lemma resize_length [simp]: "length (resize n xs) = n"
  by (simp add: resize_def)

lemma resize_same: "length xs = n \<Longrightarrow> resize n xs = xs"
  by (simp add: resize_def)

lemma ensureCapacity_Some:
  assumes "ensureCapacity alloc n p = Some p1"
  shows "length (depthMap p1) = n"
    and "depthMap p1 = resize n (depthMap p)"
    and "published p1 = published p" and "cerr p1 = cerr p"
    and "alloc \<or> length (depthMap p) = n"
  using assms by (auto simp add: ensureCapacity_def resize_same split: if_splits)

lemma ensureCapacity_None:
  "ensureCapacity alloc n p = None \<longleftrightarrow> \<not> alloc \<and> length (depthMap p) \<noteq> n"
  by (simp add: ensureCapacity_def)

lemma ensureCapacity_ok:
  assumes "alloc \<or> length (depthMap p) = n"
  shows "\<exists>p1. ensureCapacity alloc n p = Some p1"
  using assms by (auto simp add: ensureCapacity_def)

lemma OnNewDepthFrame_alloc_failure:
  assumes "\<not> alloc" and "length (depthMap p) \<noteq> unat (ImageWidth cam * ImageHeight cam)"
  shows "OnNewDepthFrame cam clk alloc p =
           Inr (p\<lparr>cerr := cerr p @
                  [''RealSensePlugin: depthMap allocation failed: std::bad_alloc'']\<rparr>)"
  using assms by (simp add: OnNewDepthFrame_def ensureCapacity_def Let_def)

lemma OnNewDepthFrame_run:
  assumes "alloc \<or> length (depthMap p) = unat (ImageWidth cam * ImageHeight cam)"
  shows "OnNewDepthFrame cam clk alloc p =
     (if length (DepthData cam) < unat (ImageWidth cam * ImageHeight cam) then Inl OutOfBoundsAccess
      else case convert_loop 0 (unat (ImageWidth cam * ImageHeight cam)) (DepthData cam)
                  (resize (unat (ImageWidth cam * ImageHeight cam)) (depthMap p)) of
             Inl f \<Rightarrow> Inl f
           | Inr m \<Rightarrow> Inr (p\<lparr>depthMap := m,
                 resizes := (if length (depthMap p) = unat (ImageWidth cam * ImageHeight cam)
                             then resizes p else resizes p + 1),
                 published := published p @
                   [(depthViewPub, view_msg cam (clk 0)), (depthPub, device_msg cam (clk 1) m)]\<rparr>))"
proof (cases "length (depthMap p) = unat (ImageWidth cam * ImageHeight cam)")
  case True
  then show ?thesis
    by (simp add: OnNewDepthFrame_def ensureCapacity_def Let_def resize_same view_msg_def
        device_msg_def empty_msg_def split: sum.splits)
next
  case False
  then have "alloc" using assms by simp
  then show ?thesis using False
    by (simp add: OnNewDepthFrame_def ensureCapacity_def Let_def view_msg_def
        device_msg_def empty_msg_def split: sum.splits)
qed

lemma encode_defined_iff: "encode w \<noteq> None \<longleftrightarrow> f32_val w \<noteq> NaN"
proof (cases "f32_val w")
  case NaN
  then show ?thesis by (simp add: encode_nan)
next
  case PInf
  then show ?thesis using encode_inf[of w] by simp
next
  case NInf
  then show ?thesis using encode_inf[of w] by simp
next
  case (Fin x)
  show ?thesis
  proof (cases "x < DEPTH_NEAR_CLIP_M \<or> 10 < x")
    case True
    then show ?thesis using Fin encode_clipped[of w x] by simp
  next
    case False
    then have "DEPTH_NEAR_CLIP_M \<le> x" "x \<le> 10" by simp_all
    then show ?thesis using Fin encode_in_range(1)[of w x] by simp
  qed
qed

section \<open>Sample values\<close>

lemma f32_val_simps:
  "f32_val 0x3F000000 = Fin (1 / 2)"
  "f32_val 0x41300000 = Fin 11"
  "f32_val 0xBDCCCCCD = Fin (- (13421773 / 134217728))"
  "f32_val 0x411FFBE7 = Fin (10484711 / 1048576)"
  "f32_val 0x7FC00000 = NaN"
  by (simp_all add: f32_val_def f32_exp_def f32_frac_def f32_sign_def f32_mag_def)

lemma encode_simps:
  "encode 0x3F000000 = Some 500"
  "encode 0x41300000 = Some 0"
  "encode 0xBDCCCCCD = Some 0"
  "encode 0x411FFBE7 = Some 9998"
proof -
  show "encode 0x3F000000 = Some 500"
    using encode_in_range(1)[OF f32_val_simps(1)] by (simp add: DEPTH_NEAR_CLIP_M_val)
  show "encode 0x41300000 = Some 0"
    using encode_clipped[OF f32_val_simps(2)] by simp
  show "encode 0xBDCCCCCD = Some 0"
    using encode_clipped[OF f32_val_simps(3)] by (simp add: DEPTH_NEAR_CLIP_M_val)
  have "\<lfloor>1000 * (10484711 / 1048576 :: rat)\<rfloor> = 9998"
    by (rule floor_unique) simp_all
  then show "encode 0x411FFBE7 = Some 9998"
    using encode_in_range(1)[OF f32_val_simps(4)] by (simp only: DEPTH_NEAR_CLIP_M_val) simp
qed

lemma encode_range:
  assumes "encode w = Some d"
  shows "d = 0 \<or> (300 \<le> d \<and> d \<le> 10000)"
proof (cases "f32_val w")
  case NaN
  then show ?thesis using assms encode_nan[of w] by simp
next
  case PInf
  then show ?thesis using assms encode_inf[of w] by simp
next
  case NInf
  then show ?thesis using assms encode_inf[of w] by simp
next
  case (Fin x)
  show ?thesis
  proof (cases "x < DEPTH_NEAR_CLIP_M \<or> 10 < x")
    case True
    then show ?thesis using assms Fin encode_clipped[of w x] by simp
  next
    case False
    then have r: "DEPTH_NEAR_CLIP_M \<le> x" "x \<le> 10" by simp_all
    note E = encode_in_range[OF Fin r]
    define k where "k = \<lfloor>1000 * x\<rfloor>"
    have k: "300 \<le> k" "k \<le> 10000" using E(2,3) by (simp_all only: k_def)
    have u: "uint (word_of_int k :: u16) = k"
      using k by (intro uint_u16_of_int) simp_all
    have d: "d = word_of_int k" using assms E(1) by (simp add: k_def)
    have "uint (300 :: u16) \<le> uint d" "uint d \<le> uint (10000 :: u16)"
      using u k by (simp_all add: d)
    then have "300 \<le> d \<and> d \<le> 10000" by (simp only: word_le_def)
    then show ?thesis ..
  qed
qed

lemma OnNewDepthFrame_result:
  assumes run: "OnNewDepthFrame cam clk alloc p = Inr p'"
    and ok: "alloc \<or> length (depthMap p) = unat (ImageWidth cam * ImageHeight cam)"
  shows "length (depthMap p') = unat (ImageWidth cam * ImageHeight cam)"
    and "unat (ImageWidth cam * ImageHeight cam) \<le> length (DepthData cam)"
    and "\<forall>j < unat (ImageWidth cam * ImageHeight cam).
            encode (DepthData cam ! j) = Some (depthMap p' ! j)"
    and "published p' = published p @
           [(depthViewPub, view_msg cam (clk 0)),
            (depthPub, device_msg cam (clk 1) (depthMap p'))]"
    and "cerr p' = cerr p"
proof -
  define n where "n = unat (ImageWidth cam * ImageHeight cam)"
  note R = OnNewDepthFrame_run[OF ok, of clk, folded n_def]
  have len: "\<not> length (DepthData cam) < n"
    using run R by (auto split: if_splits)
  then obtain m where m: "convert_loop 0 n (DepthData cam) (resize n (depthMap p)) = Inr m"
    and p': "p' = p\<lparr>depthMap := m,
                 resizes := (if length (depthMap p) = n then resizes p else resizes p + 1),
                 published := published p @
                   [(depthViewPub, view_msg cam (clk 0)), (depthPub, device_msg cam (clk 1) m)]\<rparr>"
    using run R by (auto split: if_splits sum.splits)
  show "length (depthMap p') = unat (ImageWidth cam * ImageHeight cam)"
    using convert_loop_length[OF m] by (simp add: p' n_def)
  show "unat (ImageWidth cam * ImageHeight cam) \<le> length (DepthData cam)"
    using len by (simp add: n_def)
  show "\<forall>j < unat (ImageWidth cam * ImageHeight cam).
            encode (DepthData cam ! j) = Some (depthMap p' ! j)"
    using convert_loop_samples[OF m] by (simp add: p' n_def)
  show "published p' = published p @
           [(depthViewPub, view_msg cam (clk 0)),
            (depthPub, device_msg cam (clk 1) (depthMap p'))]"
    by (simp add: p')
  show "cerr p' = cerr p" by (simp add: p')
qed

lemma OnNewDepthFrame_total:
  assumes ok: "alloc \<or> length (depthMap p) = unat (ImageWidth cam * ImageHeight cam)"
    and len: "unat (ImageWidth cam * ImageHeight cam) \<le> length (DepthData cam)"
    and def: "\<forall>j < unat (ImageWidth cam * ImageHeight cam). encode (DepthData cam ! j) \<noteq> None"
  shows "\<exists>p'. OnNewDepthFrame cam clk alloc p = Inr p'"
proof -
  define n where "n = unat (ImageWidth cam * ImageHeight cam)"
  note R = OnNewDepthFrame_run[OF ok, of clk, folded n_def]
  have "\<exists>m. convert_loop 0 n (DepthData cam) (resize n (depthMap p)) = Inr m"
    using len def by (intro convert_loop_defined) (simp_all add: n_def)
  then obtain m where "convert_loop 0 n (DepthData cam) (resize n (depthMap p)) = Inr m" ..
  then show ?thesis using R len by (simp add: n_def)
qed

lemma encode_nonzero:
  assumes "encode w = Some d" and "d \<noteq> 0"
  shows "\<exists>x. f32_val w = Fin x \<and> 3 / 10 \<le> x \<and> x \<le> 10 \<and> uint d = \<lfloor>1000 * x\<rfloor>"
proof (cases "f32_val w")
  case NaN
  then show ?thesis using assms encode_nan[of w] by simp
next
  case PInf
  then show ?thesis using assms encode_inf[of w] by simp
next
  case NInf
  then show ?thesis using assms encode_inf[of w] by simp
next
  case (Fin x)
  show ?thesis
  proof (cases "x < DEPTH_NEAR_CLIP_M \<or> 10 < x")
    case True
    then show ?thesis using assms Fin encode_clipped[of w x] by simp
  next
    case False
    then have r: "DEPTH_NEAR_CLIP_M \<le> x" "x \<le> 10" by simp_all
    note E = encode_in_range[OF Fin r]
    have "uint (word_of_int \<lfloor>1000 * x\<rfloor> :: u16) = \<lfloor>1000 * x\<rfloor>"
      using E(2,3) by (intro uint_u16_of_int) simp_all
    then have "uint d = \<lfloor>1000 * x\<rfloor>" using assms(1) E(1) by simp
    then show ?thesis using Fin E(4) r(2) by simp
  qed
qed

lemma list_of_length_4:
  assumes "length xs = 4"
  obtains a b c e where "xs = [a, b, c, e]"
proof -
  from assms have "length xs = Suc (Suc (Suc (Suc 0)))" by simp
  then show ?thesis using that by (auto simp add: length_Suc_conv)
qed

lemma scenario_run:
  assumes "alloc \<or> length (depthMap p) = 4"
  shows "OnNewDepthFrame (scenario_cam d) clk alloc p =
     Inr (p\<lparr>depthMap := [500, 0, 0, 9998],
            resizes := (if length (depthMap p) = 4 then resizes p else resizes p + 1),
            published := published p @
              [(depthViewPub, view_msg (scenario_cam d) (clk 0)),
               (depthPub, device_msg (scenario_cam d) (clk 1) [500, 0, 0, 9998])]\<rparr>)"
proof -
  have n: "unat (ImageWidth (scenario_cam d) * ImageHeight (scenario_cam d)) = 4"
    by (simp add: scenario_cam_def)
  obtain a b c e where r: "resize 4 (depthMap p) = [a, b, c, e]"
    using list_of_length_4[OF resize_length] by blast
  have "convert_loop 0 4 (DepthData (scenario_cam d)) [a, b, c, e] = Inr [500, 0, 0, 9998]"
    by (simp add: convert_loop.simps scenario_cam_def encode_simps)
  then show ?thesis
    using OnNewDepthFrame_run[of alloc p "scenario_cam d" clk] assms
    by (simp add: n r) (simp add: scenario_cam_def)
qed

section \<open>The samples of the end-to-end scenario\<close>

text \<open>
  0.5 and 11.0 are binary32 numbers. -0.1 and 9.999 are not: the buffer of the scenario
  holds the binary32 numbers nearest to them (each within half a unit in the last place).
  The one nearest to 9.999 lies below it; its upper neighbour is farther away, and is
  the only one of the two that scales to 9999.
\<close>

lemma scenario_samples:
  "f32_val 0x3F000000 = Fin (1 / 2)"
  "f32_val 0x41300000 = Fin 11"
  "f32_val 0xBDCCCCCD = Fin (- (13421773 / 134217728)) \<and>
     \<bar>- (13421773 / 134217728) - (- 1 / 10 :: rat)\<bar> < 1 / 2 ^ 28"
  "f32_val 0x411FFBE7 = Fin (10484711 / 1048576) \<and>
     \<bar>10484711 / 1048576 - (9999 / 1000 :: rat)\<bar> < 1 / 2 ^ 21 \<and>
     (10484711 / 1048576 :: rat) < 9999 / 1000"
  by (simp_all add: f32_val_simps)

lemma no_binary32_9999: "f32_val w \<noteq> Fin (9999 / 1000)"
proof
  assume a: "f32_val w = Fin (9999 / 1000)"
  then have m: "9999 / 1000 = f32_mag w" by (intro f32_val_Fin_pos) simp_all
  define K where "K = (if f32_exp w = 0 then f32_frac w else 2 ^ 23 + f32_frac w) * 2 ^ (f32_exp w - 1)"
  have K: "(9999 / 1000 :: rat) = of_nat K / 2 ^ 149"
    unfolding m K_def f32_mag_def ..
  then have "1000 * (of_nat K :: rat) = 9999 * 2 ^ 149" by simp
  then have "(of_nat (1000 * K) :: rat) = of_nat (9999 * 2 ^ 149)"
    by (simp only: of_nat_mult of_nat_numeral of_nat_power)
  then have "1000 * K = 9999 * 2 ^ 149" by (simp only: of_nat_eq_iff)
  then have "(1000 * K) mod 5 = (9999 * 2 ^ 149) mod 5" by (rule arg_cong)
  moreover have "(1000 * K) mod 5 = 0" by simp
  moreover have "(9999 * 2 ^ 149 :: nat) mod 5 = 3" by simp
  ultimately show False by simp
qed

lemma upper_neighbour_9999:
  "f32_val 0x411FFBE8 = Fin (1310589 / 131072)"
  "(9999 / 1000 :: rat) < 1310589 / 131072"
  "\<bar>10484711 / 1048576 - (9999 / 1000 :: rat)\<bar> < \<bar>1310589 / 131072 - (9999 / 1000 :: rat)\<bar>"
  "encode 0x411FFBE8 = Some 9999"
proof -
  show v: "f32_val 0x411FFBE8 = Fin (1310589 / 131072)"
    by (simp add: f32_val_def f32_exp_def f32_frac_def f32_sign_def f32_mag_def)
  show "(9999 / 1000 :: rat) < 1310589 / 131072" by simp
  show "\<bar>10484711 / 1048576 - (9999 / 1000 :: rat)\<bar> < \<bar>1310589 / 131072 - (9999 / 1000 :: rat)\<bar>"
    by simp
  have "\<lfloor>1000 * (1310589 / 131072 :: rat)\<rfloor> = 9999"
    by (rule floor_unique) simp_all
  then show "encode 0x411FFBE8 = Some 9999"
    using encode_in_range(1)[OF v] by (simp only: DEPTH_NEAR_CLIP_M_val) simp
qed

section \<open>Setup: what the null checks cover\<close>

text \<open>
  A sensor that the sensor manager does not know makes \<open>Load\<close> call a method through a
  null pointer, before any of its checks. The checks are reached when the four sensors
  exist; they catch a sensor whose renderer pointer is null.
\<close>

lemma Load_missing_sensor:
  assumes "GetSensor DEPTH_CAMERA_NAME = None \<or> GetSensor IRED1_CAMERA_NAME = None \<or>
           GetSensor IRED2_CAMERA_NAME = None \<or> GetSensor COLOR_CAMERA_NAME = None"
  shows "Load GetSensor modelName p = Inl NullDereference"
proof -
  have D: "DepthCamera_of s = Inl NullDereference \<or> (\<exists>c. DepthCamera_of s = Inr c)" for s
    by (cases s rule: DepthCamera_of.cases) simp_all
  have C: "Camera_of s = Inl NullDereference \<or> (\<exists>c. Camera_of s = Inr c)" for s
    by (cases s rule: Camera_of.cases) simp_all
  show ?thesis
    using assms D[of "GetSensor DEPTH_CAMERA_NAME"] C[of "GetSensor IRED1_CAMERA_NAME"]
      C[of "GetSensor IRED2_CAMERA_NAME"] C[of "GetSensor COLOR_CAMERA_NAME"]
    by (auto simp add: Load_def)
qed

lemma Load_null_renderer:
  assumes "Load GetSensor modelName p = Inr p'"
    and "depthCam p' = None \<or> ired1Cam p' = None \<or> ired2Cam p' = None \<or> colorCam p' = None"
  shows "advertised p' = advertised p" and "connections p' = connections p"
    and "\<exists>line. cerr p' = cerr p @ [line]"
  using assms
  by (auto simp add: Load_def Let_def split: sum.splits if_splits)

lemma Load_null_color_renderer:
  "Load sensors_null_color ''realsense'' RealSensePlugin =
     Inr (RealSensePlugin\<lparr>depthCam := Some 1, ired1Cam := Some 2, ired2Cam := Some 3,
            cerr := [''RealSensePlugin: Color Camera has not been found'']\<rparr>)"
  by (simp add: Load_def sensors_null_color_def sensors_without_color_def DEPTH_CAMERA_NAME_def
      COLOR_CAMERA_NAME_def IRED1_CAMERA_NAME_def IRED2_CAMERA_NAME_def RealSensePlugin_def)

section \<open>The samples of a completed frame\<close>

lemma depth_samples_of_completed_frame:
  assumes run: "OnNewDepthFrame cam clk alloc p = Inr p'"
    and ok: "alloc \<or> length (depthMap p) = unat (ImageWidth cam * ImageHeight cam)"
  shows "\<forall>s \<in> set (depthMap p'). s = 0 \<or> (300 \<le> s \<and> s \<le> 10000)"
    and "\<forall>j < unat (ImageWidth cam * ImageHeight cam). depthMap p' ! j \<noteq> 0 \<longrightarrow>
           (\<exists>x. f32_val (DepthData cam ! j) = Fin x \<and> 3 / 10 \<le> x \<and> x \<le> 10 \<and>
                uint (depthMap p' ! j) = \<lfloor>1000 * x\<rfloor>)"
proof -
  note R = OnNewDepthFrame_result[OF run ok]
  show "\<forall>s \<in> set (depthMap p'). s = 0 \<or> (300 \<le> s \<and> s \<le> 10000)"
  proof
    fix s assume "s \<in> set (depthMap p')"
    then obtain j where j: "j < length (depthMap p')" "depthMap p' ! j = s"
      by (auto simp add: in_set_conv_nth)
    then have "encode (DepthData cam ! j) = Some s" using R(1,3) by simp
    then show "s = 0 \<or> (300 \<le> s \<and> s \<le> 10000)" by (rule encode_range)
  qed
  show "\<forall>j < unat (ImageWidth cam * ImageHeight cam). depthMap p' ! j \<noteq> 0 \<longrightarrow>
           (\<exists>x. f32_val (DepthData cam ! j) = Fin x \<and> 3 / 10 \<le> x \<and> x \<le> 10 \<and>
                uint (depthMap p' ! j) = \<lfloor>1000 * x\<rfloor>)"
    using R(3) encode_nonzero by blast
qed

section \<open>Claims\<close>

subsection \<open>C1: the encoder, sample by sample\<close>

text \<open>
  C1, as stated, fails for a not-a-number: none of the four comparisons holds for it, so
  the sample is not clipped and reaches the cast \<open>(uint16_t)\<close>, whose behaviour is
  undefined; the encoder has no output there, neither 0 nor a scaled value.
\<close>

theorem encode_nan_counterexample:
  "f32_val 0x7FC00000 = NaN \<and> \<not> spec_clipped (f32_val 0x7FC00000) \<and> encode 0x7FC00000 = None"
  by (simp add: f32_val_simps spec_clipped_def encode_nan)

text \<open>
  C1, amended. For every binary32 sample that is a number (finite or infinite), the
  encoder has an output \<open>d\<close>, and \<open>d\<close> is 0 if and only if the sample is clipped in
  the sense of the specification (\<open>v < 0\<close>, \<open>v < 0.3\<close>, \<open>v > 10\<close> or
  \<open>v > 0.001 * 65535\<close>, with the exact decimal constants); otherwise \<open>d\<close>, read as an
  unsigned number, is exactly \<open>\<lfloor>v / 0.001\<rfloor>\<close>: neither the binary64 constants of the
  source nor the rounding of its binary64 division change the result, and the cast does
  not wrap.
\<close>

theorem encode_spec:
  assumes "f32_val w \<noteq> NaN"
  shows "\<exists>d. encode w = Some d \<and> (d = 0 \<longleftrightarrow> spec_clipped (f32_val w)) \<and>
           (\<not> spec_clipped (f32_val w) \<longrightarrow>
              (\<exists>x. f32_val w = Fin x \<and> uint d = \<lfloor>x / (1 / 1000)\<rfloor>))"
proof (cases "f32_val w")
  case NaN
  with assms show ?thesis by simp
next
  case PInf
  then show ?thesis using encode_inf[of w] by (simp add: spec_clipped_def)
next
  case NInf
  then show ?thesis using encode_inf[of w] by (simp add: spec_clipped_def)
next
  case (Fin x)
  show ?thesis
  proof (cases "x < DEPTH_NEAR_CLIP_M \<or> 10 < x")
    case True
    then have "x < 3 / 10 \<or> 10 < x" using near_clip_exact[OF Fin] by simp
    then have "spec_clipped (Fin x)" by (auto simp add: spec_clipped_def)
    then show ?thesis using Fin True encode_clipped[of w x] by simp
  next
    case False
    then have r: "DEPTH_NEAR_CLIP_M \<le> x" "x \<le> 10" by simp_all
    note E = encode_in_range[OF Fin r]
    define k where "k = \<lfloor>1000 * x\<rfloor>"
    have u: "uint (word_of_int k :: u16) = k"
      using E(2,3) by (intro uint_u16_of_int) (simp_all add: k_def)
    have k3: "300 \<le> k" using E(2) by (simp only: k_def)
    have nz: "(word_of_int k :: u16) \<noteq> 0"
    proof
      assume "(word_of_int k :: u16) = 0"
      then have "uint (word_of_int k :: u16) = 0" by simp
      with u have "k = 0" by simp
      with k3 show False by simp
    qed
    have ns: "\<not> spec_clipped (Fin x)"
      using E(4) r(2) by (simp add: spec_clipped_def)
    have "uint (word_of_int k :: u16) = \<lfloor>x / (1 / 1000)\<rfloor>"
      using u by (simp add: k_def mult.commute)
    then show ?thesis using Fin E(1) nz ns by (simp add: k_def)
  qed
qed

theorem encode_spec_witness:
  "f32_val 0x3F000000 \<noteq> NaN \<and> encode 0x3F000000 = Some 500"
proof -
  have v: "f32_val 0x3F000000 = Fin (1 / 2)" by (rule f32_val_simps)
  then have n: "f32_val 0x3F000000 \<noteq> NaN" by simp
  have ns: "\<not> spec_clipped (Fin (1 / 2))" by (simp add: spec_clipped_def)
  from encode_spec[OF n] obtain d :: u16 where d: "encode 0x3F000000 = Some d"
    and "\<not> spec_clipped (f32_val 0x3F000000) \<longrightarrow>
           (\<exists>x. f32_val 0x3F000000 = Fin x \<and> uint d = \<lfloor>x / (1 / 1000)\<rfloor>)"
    by blast
  then obtain x where "Fin (1 / 2) = Fin x" and x: "uint d = \<lfloor>x / (1 / 1000)\<rfloor>"
    using v ns by (simp only:) blast
  then have x2: "x = 1 / 2" by simp
  have "uint d = \<lfloor>(1 / 2 :: rat) / (1 / 1000)\<rfloor>" using x unfolding x2 .
  then have "uint d = 500" by simp
  then have "d = 500" by (simp add: word_uint_eq_iff)
  then show ?thesis using n d by simp
qed

subsection \<open>C2: the end-to-end scenario\<close>

text \<open>
  C2, as stated, fails on the last sample. With the buffer of the scenario, a steady
  clock and four bytes per pixel, the callback leaves \<open>[500, 0, 0, 9998]\<close> in the device
  depth buffer, not \<open>[500, 0, 0, 9999]\<close>: the \<open>float\<close> nearest to 9.999 is
  9.99899959564208984375, and its quotient by the scale truncates to 9998.
\<close>

theorem scenario_counterexample:
  "map_sum id depthMap
     (OnNewDepthFrame (scenario_cam 4) (steady_clock \<lparr>sec = 7, nsec = 0\<rparr>) True RealSensePlugin)
     = Inr [500, 0, 0, 9998] \<and>
   map_sum id depthMap
     (OnNewDepthFrame (scenario_cam 4) (steady_clock \<lparr>sec = 7, nsec = 0\<rparr>) True RealSensePlugin)
     \<noteq> Inr [500, 0, 0, 9999]"
  using scenario_run[of True RealSensePlugin 4 "steady_clock \<lparr>sec = 7, nsec = 0\<rparr>"]
  by (simp add: RealSensePlugin_def)

text \<open>
  C2, amended. For the 2 x 2 camera of the scenario (any native pixel depth, any clock,
  any state whose buffer can be brought to four samples), one callback completes, makes
  the device depth buffer \<open>[500, 0, 0, 9998]\<close> and appends exactly two messages: the
  view message with the four original floats, then the device message with that
  buffer. The view message carries the first reading of the simulation clock and the
  device message the second one.
\<close>

theorem scenario_2x2:
  assumes "alloc \<or> length (depthMap p) = 4"
  shows "\<exists>p' view device.
           OnNewDepthFrame (scenario_cam d) GetSimTime alloc p = Inr p' \<and>
           depthMap p' = [500, 0, 0, 9998] \<and>
           published p' = published p @ [(depthViewPub, view), (depthPub, device)] \<and>
           data view = FloatSamples [0x3F000000, 0x41300000, 0xBDCCCCCD, 0x411FFBE7] \<and>
           data device = DepthSamples [500, 0, 0, 9998] \<and>
           time view = GetSimTime 0 \<and> time device = GetSimTime 1"
  using scenario_run[OF assms, of d GetSimTime]
  by (simp add: view_msg_def device_msg_def scenario_cam_def)

theorem scenario_2x2_witness:
  "(True \<or> length (depthMap RealSensePlugin) = 4) \<and>
   (\<exists>p' view device.
      OnNewDepthFrame (scenario_cam 4) (steady_clock \<lparr>sec = 7, nsec = 0\<rparr>) True RealSensePlugin
        = Inr p' \<and>
      depthMap p' = [500, 0, 0, 9998] \<and>
      published p' = [(depthViewPub, view), (depthPub, device)] \<and>
      data view = FloatSamples [0x3F000000, 0x41300000, 0xBDCCCCCD, 0x411FFBE7] \<and>
      data device = DepthSamples [500, 0, 0, 9998] \<and>
      time view = \<lparr>sec = 7, nsec = 0\<rparr> \<and> time device = \<lparr>sec = 7, nsec = 0\<rparr>)"
  using scenario_2x2[of True RealSensePlugin 4 "steady_clock \<lparr>sec = 7, nsec = 0\<rparr>"]
  by (simp add: RealSensePlugin_def steady_clock_def)

subsection \<open>C3: a camera that cannot be resolved\<close>

text \<open>
  C3 describes what the checks of \<open>Load\<close> are written for, and the code misses it: with
  the depth and the two infrared sensors present and no sensor named \<open>color\<close>, \<open>Load\<close>
  calls \<open>Camera()\<close> through the null pointer that the cast returns, before it reaches
  the check that would log the missing color camera. Nothing is logged; the behaviour
  is undefined.
\<close>

theorem Load_missing_color_sensor:
  "Load sensors_without_color ''realsense'' RealSensePlugin = Inl NullDereference"
  by (simp add: Load_def sensors_without_color_def DEPTH_CAMERA_NAME_def COLOR_CAMERA_NAME_def
      IRED1_CAMERA_NAME_def IRED2_CAMERA_NAME_def)

subsection \<open>C4: a failed resize\<close>

text \<open>
  C4. When the buffer has to be resized and the allocation fails, the callback returns
  normally with the device depth buffer and the list of published messages unchanged;
  on a later frame whose allocation succeeds (with a float buffer that covers the image
  and holds numbers only), the callback completes, the buffer has the size of that
  frame and exactly the two messages of that frame are published.
\<close>

theorem allocation_failure_skips_frame:
  assumes "length (depthMap p) \<noteq> unat (ImageWidth cam * ImageHeight cam)"
  shows "\<exists>p'. OnNewDepthFrame cam clk False p = Inr p' \<and>
           depthMap p' = depthMap p \<and> published p' = published p \<and>
           (\<forall>cam2 clk2.
              unat (ImageWidth cam2 * ImageHeight cam2) \<le> length (DepthData cam2) \<and>
              (\<forall>j < unat (ImageWidth cam2 * ImageHeight cam2). f32_val (DepthData cam2 ! j) \<noteq> NaN)
              \<longrightarrow>
              (\<exists>p''. OnNewDepthFrame cam2 clk2 True p' = Inr p'' \<and>
                 length (depthMap p'') = unat (ImageWidth cam2 * ImageHeight cam2) \<and>
                 published p'' = published p @
                   [(depthViewPub, view_msg cam2 (clk2 0)),
                    (depthPub, device_msg cam2 (clk2 1) (depthMap p''))]))"
proof -
  define p' where "p' = p\<lparr>cerr := cerr p @
                  [''RealSensePlugin: depthMap allocation failed: std::bad_alloc'']\<rparr>"
  have run: "OnNewDepthFrame cam clk False p = Inr p'"
    using assms by (simp add: OnNewDepthFrame_alloc_failure p'_def)
  have same: "depthMap p' = depthMap p" "published p' = published p"
    by (simp_all add: p'_def)
  have "\<exists>p''. OnNewDepthFrame cam2 clk2 True p' = Inr p'' \<and>
           length (depthMap p'') = unat (ImageWidth cam2 * ImageHeight cam2) \<and>
           published p'' = published p @
             [(depthViewPub, view_msg cam2 (clk2 0)),
              (depthPub, device_msg cam2 (clk2 1) (depthMap p''))]"
    if len: "unat (ImageWidth cam2 * ImageHeight cam2) \<le> length (DepthData cam2)"
      and num: "\<forall>j < unat (ImageWidth cam2 * ImageHeight cam2). f32_val (DepthData cam2 ! j) \<noteq> NaN"
    for cam2 clk2
  proof -
    have ok: "True \<or> length (depthMap p') = unat (ImageWidth cam2 * ImageHeight cam2)" by simp
    have "\<forall>j < unat (ImageWidth cam2 * ImageHeight cam2). encode (DepthData cam2 ! j) \<noteq> None"
      using num encode_defined_iff by blast
    then obtain p'' where run2: "OnNewDepthFrame cam2 clk2 True p' = Inr p''"
      using OnNewDepthFrame_total[OF ok len, of clk2] by blast
    note R = OnNewDepthFrame_result[OF run2 ok]
    show ?thesis using run2 R(1,4) same by simp
  qed
  then show ?thesis using run same by blast
qed

theorem allocation_failure_skips_frame_witness:
  "length (depthMap RealSensePlugin) \<noteq> unat (ImageWidth (scenario_cam 4) * ImageHeight (scenario_cam 4)) \<and>
   OnNewDepthFrame (scenario_cam 4) ticking_clock False RealSensePlugin
     = Inr (RealSensePlugin\<lparr>cerr :=
              [''RealSensePlugin: depthMap allocation failed: std::bad_alloc'']\<rparr>) \<and>
   (\<exists>p''. OnNewDepthFrame (scenario_cam 4) ticking_clock True
             (RealSensePlugin\<lparr>cerr :=
                [''RealSensePlugin: depthMap allocation failed: std::bad_alloc'']\<rparr>) = Inr p'' \<and>
          length (depthMap p'') = 4 \<and> length (published p'') = 2)"
proof -
  have h: "length (depthMap RealSensePlugin)
             \<noteq> unat (ImageWidth (scenario_cam 4) * ImageHeight (scenario_cam 4))"
    by (simp add: RealSensePlugin_def scenario_cam_def)
  have f: "OnNewDepthFrame (scenario_cam 4) ticking_clock False RealSensePlugin
     = Inr (RealSensePlugin\<lparr>cerr :=
              [''RealSensePlugin: depthMap allocation failed: std::bad_alloc'']\<rparr>)"
    using OnNewDepthFrame_alloc_failure[of False RealSensePlugin "scenario_cam 4" ticking_clock] h
    by (simp add: RealSensePlugin_def)
  have len: "unat (ImageWidth (scenario_cam 4) * ImageHeight (scenario_cam 4))
               \<le> length (DepthData (scenario_cam 4))"
    by (simp add: scenario_cam_def)
  have num: "\<forall>j < unat (ImageWidth (scenario_cam 4) * ImageHeight (scenario_cam 4)).
               f32_val (DepthData (scenario_cam 4) ! j) \<noteq> NaN"
  proof (intro allI impI)
    fix j :: nat
    assume "j < unat (ImageWidth (scenario_cam 4) * ImageHeight (scenario_cam 4))"
    then have "j < 4" by (simp add: scenario_cam_def)
    then have "j = 0 \<or> j = 1 \<or> j = 2 \<or> j = 3" by linarith
    then show "f32_val (DepthData (scenario_cam 4) ! j) \<noteq> NaN"
      by (auto simp add: scenario_cam_def f32_val_simps)
  qed
  from allocation_failure_skips_frame[OF h, of ticking_clock]
  obtain p' where p': "OnNewDepthFrame (scenario_cam 4) ticking_clock False RealSensePlugin = Inr p'"
    and pub: "published p' = published RealSensePlugin"
    and next_frame: "\<And>cam2 clk2.
          unat (ImageWidth cam2 * ImageHeight cam2) \<le> length (DepthData cam2) \<Longrightarrow>
          \<forall>j < unat (ImageWidth cam2 * ImageHeight cam2). f32_val (DepthData cam2 ! j) \<noteq> NaN \<Longrightarrow>
          \<exists>p''. OnNewDepthFrame cam2 clk2 True p' = Inr p'' \<and>
             length (depthMap p'') = unat (ImageWidth cam2 * ImageHeight cam2) \<and>
             published p'' = published RealSensePlugin @
               [(depthViewPub, view_msg cam2 (clk2 0)),
                (depthPub, device_msg cam2 (clk2 1) (depthMap p''))]"
    by blast
  have eq: "p' = RealSensePlugin\<lparr>cerr :=
              [''RealSensePlugin: depthMap allocation failed: std::bad_alloc'']\<rparr>"
    using p' f by simp
  from next_frame[OF len num, of ticking_clock]
  obtain p'' where "OnNewDepthFrame (scenario_cam 4) ticking_clock True p' = Inr p''"
    and "length (depthMap p'') = unat (ImageWidth (scenario_cam 4) * ImageHeight (scenario_cam 4))"
    and "published p'' = published RealSensePlugin @
               [(depthViewPub, view_msg (scenario_cam 4) (ticking_clock 0)),
                (depthPub, device_msg (scenario_cam 4) (ticking_clock 1) (depthMap p''))]"
    by blast
  then have "OnNewDepthFrame (scenario_cam 4) ticking_clock True
             (RealSensePlugin\<lparr>cerr :=
                [''RealSensePlugin: depthMap allocation failed: std::bad_alloc'']\<rparr>) = Inr p'' \<and>
          length (depthMap p'') = 4 \<and> length (published p'') = 2"
    by (simp add: eq RealSensePlugin_def scenario_cam_def)
  then show ?thesis using h f by blast
qed

subsection \<open>C5: the timestamps of the two messages\<close>

text \<open>
  C5, as stated, fails: the callback calls \<open>GetSimTime\<close> once for each message. With a
  clock that advances between the two calls, the view message and the device message
  of one frame carry different timestamps.
\<close>

theorem timestamps_counterexample:
  "map_sum id (map (time \<circ> snd) \<circ> published)
     (OnNewDepthFrame (scenario_cam 4) ticking_clock True RealSensePlugin)
   = Inr [\<lparr>sec = 0, nsec = 0\<rparr>, \<lparr>sec = 1, nsec = 0\<rparr>]"
  using scenario_run[of True RealSensePlugin 4 ticking_clock]
  by (simp add: RealSensePlugin_def view_msg_def device_msg_def ticking_clock_def)

text \<open>
  C5, amended. In a callback that publishes, the view message carries the first reading
  of the simulation clock and the device message the second reading; the two
  timestamps are equal if and only if the two readings are.
\<close>

theorem timestamps_read_twice:
  assumes "OnNewDepthFrame cam GetSimTime alloc p = Inr p'"
    and "alloc \<or> length (depthMap p) = unat (ImageWidth cam * ImageHeight cam)"
  shows "\<exists>view device.
           published p' = published p @ [(depthViewPub, view), (depthPub, device)] \<and>
           time view = GetSimTime 0 \<and> time device = GetSimTime 1 \<and>
           (time view = time device \<longleftrightarrow> GetSimTime 0 = GetSimTime 1)"
  using OnNewDepthFrame_result(4)[OF assms] by (simp add: view_msg_def device_msg_def)

theorem timestamps_read_twice_witness:
  "OnNewDepthFrame (scenario_cam 4) (steady_clock \<lparr>sec = 7, nsec = 0\<rparr>) True RealSensePlugin
     = Inr (RealSensePlugin\<lparr>depthMap := [500, 0, 0, 9998], resizes := 1,
              published :=
                [(depthViewPub, view_msg (scenario_cam 4) \<lparr>sec = 7, nsec = 0\<rparr>),
                 (depthPub, device_msg (scenario_cam 4) \<lparr>sec = 7, nsec = 0\<rparr> [500, 0, 0, 9998])]\<rparr>) \<and>
   (\<exists>view device.
      [(depthViewPub, view_msg (scenario_cam 4) \<lparr>sec = 7, nsec = 0\<rparr>),
       (depthPub, device_msg (scenario_cam 4) \<lparr>sec = 7, nsec = 0\<rparr> [500, 0, 0, 9998])]
        = [(depthViewPub, view), (depthPub, device)] \<and>
      time view = \<lparr>sec = 7, nsec = 0\<rparr> \<and> time device = \<lparr>sec = 7, nsec = 0\<rparr>)"
proof -
  have run: "OnNewDepthFrame (scenario_cam 4) (steady_clock \<lparr>sec = 7, nsec = 0\<rparr>) True RealSensePlugin
     = Inr (RealSensePlugin\<lparr>depthMap := [500, 0, 0, 9998], resizes := 1,
              published :=
                [(depthViewPub, view_msg (scenario_cam 4) \<lparr>sec = 7, nsec = 0\<rparr>),
                 (depthPub, device_msg (scenario_cam 4) \<lparr>sec = 7, nsec = 0\<rparr> [500, 0, 0, 9998])]\<rparr>)"
    using scenario_run[of True RealSensePlugin 4 "steady_clock \<lparr>sec = 7, nsec = 0\<rparr>"]
    by (simp add: RealSensePlugin_def steady_clock_def)
  from timestamps_read_twice[OF run] show ?thesis
    using run by (simp add: RealSensePlugin_def steady_clock_def)
qed

subsection \<open>C6: the size of the buffer and the bounds of the loop\<close>

text \<open>
  C6, as stated, fails when the product of the dimensions does not fit in 32 bits: for a
  camera of 65536 x 65536 pixels \<open>imageSize\<close> wraps to 0, the callback completes with an
  empty device depth buffer, and the length of the buffer is not width x height.
\<close>

theorem buffer_size_wraps_counterexample:
  "map_sum id (length \<circ> depthMap)
     (OnNewDepthFrame huge_cam (steady_clock \<lparr>sec = 7, nsec = 0\<rparr>) True RealSensePlugin) = Inr 0 \<and>
   unat (ImageWidth huge_cam) * unat (ImageHeight huge_cam) = 4294967296"
proof -
  have n: "unat (ImageWidth huge_cam * ImageHeight huge_cam) = 0"
    by (simp add: huge_cam_def)
  have "convert_loop 0 0 (DepthData huge_cam) [] = Inr []" by (simp add: convert_loop.simps)
  then have "map_sum id (length \<circ> depthMap)
     (OnNewDepthFrame huge_cam (steady_clock \<lparr>sec = 7, nsec = 0\<rparr>) True RealSensePlugin) = Inr 0"
    using OnNewDepthFrame_run[of True RealSensePlugin huge_cam "steady_clock \<lparr>sec = 7, nsec = 0\<rparr>"]
    by (simp add: n RealSensePlugin_def resize_def)
  moreover have "unat (ImageWidth huge_cam) * unat (ImageHeight huge_cam) = 4294967296"
    by (simp add: huge_cam_def)
  ultimately show ?thesis ..
qed

text \<open>
  C6, amended. The state holds one device depth buffer, \<open>depthMap\<close>. Whenever the size
  check lets the callback go on, the buffer has exactly
  \<open>imageSize = ImageWidth * ImageHeight\<close> samples, the product in \<open>unsigned int\<close> (modulo
  \<open>2^32\<close>) as the source computes it, which is width x height whenever that product
  fits in 32 bits; and it still has after the conversion. When the float buffer of the
  camera covers \<open>imageSize\<close> samples, no access of the callback falls outside a buffer,
  and the samples of the float buffer beyond \<open>imageSize\<close> have no influence on the
  outcome: they are not read.
\<close>

theorem depth_buffer_sized_and_bounded:
  "(ensureCapacity alloc (unat (ImageWidth cam * ImageHeight cam)) p = Some p1 \<longrightarrow>
      length (depthMap p1) = unat (ImageWidth cam * ImageHeight cam)) \<and>
   (OnNewDepthFrame cam clk alloc p = Inr p' \<and>
      (alloc \<or> length (depthMap p) = unat (ImageWidth cam * ImageHeight cam)) \<longrightarrow>
      length (depthMap p') = unat (ImageWidth cam * ImageHeight cam)) \<and>
   (unat (ImageWidth cam * ImageHeight cam) \<le> length (DepthData cam) \<longrightarrow>
      OnNewDepthFrame cam clk alloc p \<noteq> Inl OutOfBoundsAccess \<and>
      OnNewDepthFrame (cam\<lparr>DepthData := DepthData cam @ beyond\<rparr>) clk alloc p
        = OnNewDepthFrame cam clk alloc p) \<and>
   (unat (ImageWidth cam) * unat (ImageHeight cam) < 2 ^ 32 \<longrightarrow>
      unat (ImageWidth cam * ImageHeight cam) = unat (ImageWidth cam) * unat (ImageHeight cam))"
proof (intro conjI impI)
  assume "ensureCapacity alloc (unat (ImageWidth cam * ImageHeight cam)) p = Some p1"
  then show "length (depthMap p1) = unat (ImageWidth cam * ImageHeight cam)"
    by (rule ensureCapacity_Some(1))
next
  assume "OnNewDepthFrame cam clk alloc p = Inr p' \<and>
      (alloc \<or> length (depthMap p) = unat (ImageWidth cam * ImageHeight cam))"
  then show "length (depthMap p') = unat (ImageWidth cam * ImageHeight cam)"
    using OnNewDepthFrame_result(1) by blast
next
  assume len: "unat (ImageWidth cam * ImageHeight cam) \<le> length (DepthData cam)"
  define n where "n = unat (ImageWidth cam * ImageHeight cam)"
  show "OnNewDepthFrame cam clk alloc p \<noteq> Inl OutOfBoundsAccess"
  proof (cases "alloc \<or> length (depthMap p) = unat (ImageWidth cam * ImageHeight cam)")
    case True
    have "convert_loop 0 n (DepthData cam) (resize n (depthMap p)) \<noteq> Inl OutOfBoundsAccess"
      using len by (intro convert_loop_no_out_of_bounds) (simp_all add: n_def)
    then show ?thesis
      using OnNewDepthFrame_run[OF True, of clk] len
      by (simp add: n_def split: sum.splits)
  next
    case False
    then show ?thesis using OnNewDepthFrame_alloc_failure[of alloc p cam clk] by simp
  qed
next
  assume len: "unat (ImageWidth cam * ImageHeight cam) \<le> length (DepthData cam)"
  define n where "n = unat (ImageWidth cam * ImageHeight cam)"
  define cam' where "cam' = cam\<lparr>DepthData := DepthData cam @ beyond\<rparr>"
  have dims: "ImageWidth cam' = ImageWidth cam" "ImageHeight cam' = ImageHeight cam"
    "ImageDepth cam' = ImageDepth cam" "DepthData cam' = DepthData cam @ beyond"
    by (simp_all add: cam'_def)
  have tk: "take n (DepthData cam') = take n (DepthData cam)"
    using len by (simp add: dims n_def)
  show "OnNewDepthFrame (cam\<lparr>DepthData := DepthData cam @ beyond\<rparr>) clk alloc p
        = OnNewDepthFrame cam clk alloc p"
  proof (cases "alloc \<or> length (depthMap p) = unat (ImageWidth cam * ImageHeight cam)")
    case True
    then have True': "alloc \<or> length (depthMap p) = unat (ImageWidth cam' * ImageHeight cam')"
      by (simp add: dims)
    have E1: "convert_loop 0 n (DepthData cam') (resize n (depthMap p))
            = convert_loop 0 n (DepthData cam) (resize n (depthMap p))"
      using tk by (intro convert_loop_cong) simp_all
    have E2: "view_msg cam' = view_msg cam"
      using tk by (simp add: view_msg_def dims n_def fun_eq_iff)
    have E3: "device_msg cam' = device_msg cam"
      by (simp add: device_msg_def dims fun_eq_iff)
    have E4: "(length (DepthData cam') < n) = (length (DepthData cam) < n)"
      using len by (simp add: dims n_def)
    have "OnNewDepthFrame cam' clk alloc p = OnNewDepthFrame cam clk alloc p"
      unfolding OnNewDepthFrame_run[OF True, of clk] OnNewDepthFrame_run[OF True', of clk]
      unfolding dims(1,2) n_def[symmetric] E1 E2 E3 E4 ..
    then show ?thesis by (simp only: cam'_def)
  next
    case False
    then show ?thesis
      using OnNewDepthFrame_alloc_failure[of alloc p cam clk]
        OnNewDepthFrame_alloc_failure[of alloc p cam' clk]
      by (simp add: dims(1,2)) (simp add: cam'_def)
  qed
next
  assume "unat (ImageWidth cam) * unat (ImageHeight cam) < 2 ^ 32"
  then have "unat (ImageWidth cam) * unat (ImageHeight cam) < 2 ^ LENGTH(32)" by simp
  then show "unat (ImageWidth cam * ImageHeight cam) = unat (ImageWidth cam) * unat (ImageHeight cam)"
    by (simp only: unat_mult_lem)
qed

theorem depth_buffer_sized_and_bounded_witness:
  "ensureCapacity True (unat (ImageWidth (scenario_cam 4) * ImageHeight (scenario_cam 4)))
     RealSensePlugin = Some (RealSensePlugin\<lparr>depthMap := [0, 0, 0, 0], resizes := 1\<rparr>) \<and>
   length (depthMap (RealSensePlugin\<lparr>depthMap := [0, 0, 0, 0], resizes := 1\<rparr>)) = 4 \<and>
   unat (ImageWidth (scenario_cam 4) * ImageHeight (scenario_cam 4))
     \<le> length (DepthData (scenario_cam 4)) \<and>
   OnNewDepthFrame (scenario_cam 4) ticking_clock True RealSensePlugin \<noteq> Inl OutOfBoundsAccess \<and>
   OnNewDepthFrame (scenario_cam 4\<lparr>DepthData := DepthData (scenario_cam 4) @ [0x7FC00000]\<rparr>)
       ticking_clock True RealSensePlugin
     = OnNewDepthFrame (scenario_cam 4) ticking_clock True RealSensePlugin"
proof -
  have n: "unat (ImageWidth (scenario_cam 4) * ImageHeight (scenario_cam 4)) = 4"
    by (simp add: scenario_cam_def)
  have 1: "ensureCapacity True (unat (ImageWidth (scenario_cam 4) * ImageHeight (scenario_cam 4)))
     RealSensePlugin = Some (RealSensePlugin\<lparr>depthMap := [0, 0, 0, 0], resizes := 1\<rparr>)"
    unfolding n by (simp add: ensureCapacity_def RealSensePlugin_def resize_def numeral_eq_Suc)
  have 2: "unat (ImageWidth (scenario_cam 4) * ImageHeight (scenario_cam 4))
     \<le> length (DepthData (scenario_cam 4))"
    by (simp add: scenario_cam_def)
  from depth_buffer_sized_and_bounded[of True "scenario_cam 4" RealSensePlugin
      "RealSensePlugin\<lparr>depthMap := [0, 0, 0, 0], resizes := 1\<rparr>" ticking_clock _ "[0x7FC00000]"]
  show ?thesis using 1 2 by (simp add: scenario_cam_def)
qed

subsection \<open>C7: the size check is idempotent\<close>

text \<open>
  C7. Once a call of the size check for \<open>n\<close> samples has gone through, a second call
  for the same \<open>n\<close> returns the state as it is (same buffer, same count of resizes),
  whatever the allocator would answer; more generally the check does nothing whenever
  the buffer already holds \<open>n\<close> samples.
\<close>

theorem ensureCapacity_twice:
  "(ensureCapacity alloc n p = Some p' \<longrightarrow> ensureCapacity alloc' n p' = Some p') \<and>
   (length (depthMap p) = n \<longrightarrow> ensureCapacity alloc n p = Some p)"
  by (auto simp add: ensureCapacity_def split: if_splits)

theorem ensureCapacity_twice_witness:
  "ensureCapacity True 4 RealSensePlugin
     = Some (RealSensePlugin\<lparr>depthMap := [0, 0, 0, 0], resizes := 1\<rparr>) \<and>
   ensureCapacity False 4 (RealSensePlugin\<lparr>depthMap := [0, 0, 0, 0], resizes := 1\<rparr>)
     = Some (RealSensePlugin\<lparr>depthMap := [0, 0, 0, 0], resizes := 1\<rparr>)"
proof -
  have 1: "ensureCapacity True 4 RealSensePlugin
             = Some (RealSensePlugin\<lparr>depthMap := [0, 0, 0, 0], resizes := 1\<rparr>)"
    by (simp add: ensureCapacity_def RealSensePlugin_def resize_def numeral_eq_Suc)
  with ensureCapacity_twice[of True 4 RealSensePlugin
      "RealSensePlugin\<lparr>depthMap := [0, 0, 0, 0], resizes := 1\<rparr>" False]
  show ?thesis by simp
qed

subsection \<open>C8: the encoder is deterministic\<close>

text \<open>
  C8. With the buffer already sized, the outcome of the conversion depends on the float
  samples only, not on what the buffer held before; and a callback that has completed
  on a frame completes again on the same frame (whatever the clock and the allocator)
  and leaves the same device depth buffer.
\<close>

theorem encode_deterministic:
  "(length b1 = n \<and> length b2 = n \<longrightarrow> convert_loop 0 n src b1 = convert_loop 0 n src b2) \<and>
   (OnNewDepthFrame cam clk alloc p = Inr p1 \<and>
      (alloc \<or> length (depthMap p) = unat (ImageWidth cam * ImageHeight cam)) \<longrightarrow>
      (\<exists>p2. OnNewDepthFrame cam clk' alloc' p1 = Inr p2 \<and> depthMap p2 = depthMap p1))"
proof (intro conjI impI)
  assume "length b1 = n \<and> length b2 = n"
  then show "convert_loop 0 n src b1 = convert_loop 0 n src b2"
    by (intro convert_loop_cong) simp_all
next
  assume a: "OnNewDepthFrame cam clk alloc p = Inr p1 \<and>
      (alloc \<or> length (depthMap p) = unat (ImageWidth cam * ImageHeight cam))"
  define n where "n = unat (ImageWidth cam * ImageHeight cam)"
  from a have run: "OnNewDepthFrame cam clk alloc p = Inr p1"
    and ok: "alloc \<or> length (depthMap p) = unat (ImageWidth cam * ImageHeight cam)" by simp_all
  note R = OnNewDepthFrame_result[OF run ok, folded n_def]
  have ok1: "alloc' \<or> length (depthMap p1) = unat (ImageWidth cam * ImageHeight cam)"
    using R(1) by (simp add: n_def)
  have "\<forall>j < unat (ImageWidth cam * ImageHeight cam). encode (DepthData cam ! j) \<noteq> None"
    using R(3) by (simp add: n_def)
  then obtain p2 where run2: "OnNewDepthFrame cam clk' alloc' p1 = Inr p2"
    using OnNewDepthFrame_total[OF ok1, of clk'] R(2) by (auto simp add: n_def)
  note R2 = OnNewDepthFrame_result[OF run2 ok1, folded n_def]
  have "depthMap p2 = depthMap p1"
  proof (rule nth_equalityI)
    show "length (depthMap p2) = length (depthMap p1)" using R(1) R2(1) by simp
    fix j assume "j < length (depthMap p2)"
    then have "j < n" using R2(1) by simp
    then have "Some (depthMap p2 ! j) = Some (depthMap p1 ! j)"
      using R(3) R2(3) by (metis)
    then show "depthMap p2 ! j = depthMap p1 ! j" by simp
  qed
  with run2 show "\<exists>p2. OnNewDepthFrame cam clk' alloc' p1 = Inr p2 \<and> depthMap p2 = depthMap p1"
    by blast
qed

theorem encode_deterministic_witness:
  "convert_loop 0 4 (DepthData (scenario_cam 4)) [1, 2, 3, 4] = Inr [500, 0, 0, 9998] \<and>
   convert_loop 0 4 (DepthData (scenario_cam 4)) [0, 0, 0, 0] = Inr [500, 0, 0, 9998]"
proof -
  have "convert_loop 0 4 (DepthData (scenario_cam 4)) [1, 2, 3, 4] = Inr [500, 0, 0, 9998]"
    by (simp add: convert_loop.simps scenario_cam_def encode_simps)
  moreover have "convert_loop 0 4 (DepthData (scenario_cam 4)) [1, 2, 3, 4]
                   = convert_loop 0 4 (DepthData (scenario_cam 4)) [0, 0, 0, 0]"
    using encode_deterministic[of "[1, 2, 3, 4]" 4 "[0, 0, 0, 0]" "DepthData (scenario_cam 4)"]
    by simp
  ultimately show ?thesis by simp
qed

subsection \<open>C9: the stride of the device message\<close>

text \<open>
  C9, as stated, fails for an image of width 0: with four bytes per pixel, the stride
  of both messages is 0, which is also twice the width.
\<close>

theorem stride_zero_width_counterexample:
  "map_sum id (map (step \<circ> snd) \<circ> published)
     (OnNewDepthFrame empty_cam (steady_clock \<lparr>sec = 7, nsec = 0\<rparr>) True RealSensePlugin)
     = Inr [2 * ImageWidth empty_cam, 2 * ImageWidth empty_cam] \<and>
   ImageDepth empty_cam \<noteq> 2"
proof -
  have "convert_loop 0 0 [] [] = Inr []" by (simp add: convert_loop.simps)
  then show ?thesis
    using OnNewDepthFrame_run[of True RealSensePlugin empty_cam "steady_clock \<lparr>sec = 7, nsec = 0\<rparr>"]
    by (simp add: empty_cam_def RealSensePlugin_def resize_def view_msg_def device_msg_def)
qed

text \<open>
  C9, amended. The device message of a frame declares the format \<open>L_INT16\<close>, carries the
  \<open>imageSize\<close> samples of the device depth buffer in \<open>2 * imageSize\<close> bytes, and has the
  stride \<open>ImageWidth * ImageDepth\<close> (in \<open>unsigned int\<close>); this stride differs from the
  length \<open>2 * ImageWidth\<close> of a row of 16-bit samples whenever the native pixel depth is
  not 2, the width is not 0 and \<open>ImageWidth * ImageDepth\<close> does not overflow.
\<close>

theorem device_message_stride:
  assumes "OnNewDepthFrame cam clk alloc p = Inr p'"
    and "alloc \<or> length (depthMap p) = unat (ImageWidth cam * ImageHeight cam)"
  shows "\<exists>view device.
           published p' = published p @ [(depthViewPub, view), (depthPub, device)] \<and>
           pixel_format device = L_INT16 \<and>
           data device = DepthSamples (depthMap p') \<and>
           length (depthMap p') = unat (ImageWidth cam * ImageHeight cam) \<and>
           data_size device = 2 * unat (ImageWidth cam * ImageHeight cam) \<and>
           step device = ImageWidth cam * ImageDepth cam \<and>
           (ImageDepth cam \<noteq> 2 \<and> ImageWidth cam \<noteq> 0 \<and>
            unat (ImageWidth cam) * unat (ImageDepth cam) < 2 ^ 32 \<longrightarrow>
              unat (step device) \<noteq> 2 * unat (ImageWidth cam))"
proof -
  note R = OnNewDepthFrame_result[OF assms]
  define device where "device = device_msg cam (clk 1) (depthMap p')"
  have neq: "unat (step device) \<noteq> 2 * unat (ImageWidth cam)"
    if d: "ImageDepth cam \<noteq> 2" and w: "ImageWidth cam \<noteq> 0"
      and no: "unat (ImageWidth cam) * unat (ImageDepth cam) < 2 ^ 32"
  proof
    assume e: "unat (step device) = 2 * unat (ImageWidth cam)"
    have "unat (ImageWidth cam) * unat (ImageDepth cam) < 2 ^ LENGTH(32)" using no by simp
    then have "unat (ImageWidth cam * ImageDepth cam) = unat (ImageWidth cam) * unat (ImageDepth cam)"
      by (simp only: unat_mult_lem)
    then have "unat (ImageWidth cam) * unat (ImageDepth cam) = unat (ImageWidth cam) * 2"
      using e by (auto simp add: device_def device_msg_def)
    moreover have "0 < unat (ImageWidth cam)" using w by (simp add: unat_gt_0)
    ultimately have "unat (ImageDepth cam) = 2" by simp
    then have "ImageDepth cam = 2" by (simp add: word_unat_eq_iff)
    with d show False by simp
  qed
  have "published p' = published p @ [(depthViewPub, view_msg cam (clk 0)), (depthPub, device)]"
    using R(4) by (simp add: device_def)
  moreover have "pixel_format device = L_INT16" "data device = DepthSamples (depthMap p')"
    "data_size device = 2 * unat (ImageWidth cam * ImageHeight cam)"
    "step device = ImageWidth cam * ImageDepth cam"
    by (simp_all add: device_def device_msg_def)
  ultimately show ?thesis using R(1) neq by blast
qed

theorem device_message_stride_witness:
  "OnNewDepthFrame (scenario_cam 4) ticking_clock True RealSensePlugin
     = Inr (RealSensePlugin\<lparr>depthMap := [500, 0, 0, 9998], resizes := 1,
              published := [(depthViewPub, view_msg (scenario_cam 4) (ticking_clock 0)),
                 (depthPub, device_msg (scenario_cam 4) (ticking_clock 1) [500, 0, 0, 9998])]\<rparr>) \<and>
   ImageDepth (scenario_cam 4) \<noteq> 2 \<and> ImageWidth (scenario_cam 4) \<noteq> 0 \<and>
   unat (ImageWidth (scenario_cam 4)) * unat (ImageDepth (scenario_cam 4)) < 2 ^ 32 \<and>
   pixel_format (device_msg (scenario_cam 4) (ticking_clock 1) [500, 0, 0, 9998]) = L_INT16 \<and>
   data_size (device_msg (scenario_cam 4) (ticking_clock 1) [500, 0, 0, 9998]) = 8 \<and>
   unat (step (device_msg (scenario_cam 4) (ticking_clock 1) [500, 0, 0, 9998])) = 8 \<and>
   unat (step (device_msg (scenario_cam 4) (ticking_clock 1) [500, 0, 0, 9998]))
     \<noteq> 2 * unat (ImageWidth (scenario_cam 4))"
proof -
  have run: "OnNewDepthFrame (scenario_cam 4) ticking_clock True RealSensePlugin
     = Inr (RealSensePlugin\<lparr>depthMap := [500, 0, 0, 9998], resizes := 1,
              published := [(depthViewPub, view_msg (scenario_cam 4) (ticking_clock 0)),
                 (depthPub, device_msg (scenario_cam 4) (ticking_clock 1) [500, 0, 0, 9998])]\<rparr>)"
    using scenario_run[of True RealSensePlugin 4 ticking_clock]
    by (simp add: RealSensePlugin_def)
  have h: "ImageDepth (scenario_cam 4) \<noteq> 2" "ImageWidth (scenario_cam 4) \<noteq> 0"
    "unat (ImageWidth (scenario_cam 4)) * unat (ImageDepth (scenario_cam 4)) < 2 ^ 32"
    by (simp_all add: scenario_cam_def)
  from device_message_stride[OF run]
  obtain view device where
    pub: "published (RealSensePlugin\<lparr>depthMap := [500, 0, 0, 9998], resizes := 1,
              published := [(depthViewPub, view_msg (scenario_cam 4) (ticking_clock 0)),
                 (depthPub, device_msg (scenario_cam 4) (ticking_clock 1) [500, 0, 0, 9998])]\<rparr>)
          = published RealSensePlugin @ [(depthViewPub, view), (depthPub, device)]"
    and ne: "ImageDepth (scenario_cam 4) \<noteq> 2 \<and> ImageWidth (scenario_cam 4) \<noteq> 0 \<and>
            unat (ImageWidth (scenario_cam 4)) * unat (ImageDepth (scenario_cam 4)) < 2 ^ 32 \<longrightarrow>
              unat (step device) \<noteq> 2 * unat (ImageWidth (scenario_cam 4))"
    by auto
  have "device = device_msg (scenario_cam 4) (ticking_clock 1) [500, 0, 0, 9998]"
    using pub by (simp add: RealSensePlugin_def)
  then have "unat (step (device_msg (scenario_cam 4) (ticking_clock 1) [500, 0, 0, 9998]))
     \<noteq> 2 * unat (ImageWidth (scenario_cam 4))"
    using ne h by simp
  moreover have "pixel_format (device_msg (scenario_cam 4) (ticking_clock 1) [500, 0, 0, 9998]) = L_INT16"
    "data_size (device_msg (scenario_cam 4) (ticking_clock 1) [500, 0, 0, 9998]) = 8"
    "unat (step (device_msg (scenario_cam 4) (ticking_clock 1) [500, 0, 0, 9998])) = 8"
    by (simp_all add: device_msg_def scenario_cam_def)
  ultimately show ?thesis using run h by simp
qed

subsection \<open>C10: the range of the device samples\<close>

text \<open>
  C10, as stated, fails for a frame that holds a not-a-number: the sample passes the
  four guards and reaches the cast, whose behaviour is undefined, so the callback has
  no defined device depth buffer after the loop.
\<close>

theorem nan_frame_counterexample:
  "OnNewDepthFrame nan_cam (steady_clock \<lparr>sec = 7, nsec = 0\<rparr>) True RealSensePlugin
     = Inl UndefinedFloatCast"
proof -
  have n: "unat (ImageWidth nan_cam * ImageHeight nan_cam) = 4"
    by (simp add: nan_cam_def)
  have e: "encode 0x7FC00000 = None" by (rule encode_nan) (rule f32_val_simps)
  obtain a b c d where r: "resize 4 (depthMap RealSensePlugin) = [a, b, c, d]"
    using list_of_length_4[OF resize_length] by blast
  have "convert_loop 0 4 (DepthData nan_cam) [a, b, c, d] = Inl UndefinedFloatCast"
    by (simp add: convert_loop.simps nan_cam_def encode_simps e)
  then show ?thesis
    using OnNewDepthFrame_run[of True RealSensePlugin nan_cam "steady_clock \<lparr>sec = 7, nsec = 0\<rparr>"]
    by (simp add: n r) (simp add: nan_cam_def)
qed

text \<open>
  C10, amended. For every frame whose float buffer covers the image and holds numbers
  only (finite or infinite, no not-a-number), the callback completes, and after the
  conversion every sample of the device depth buffer is 0 or lies between 300 and
  10000; a sample that is not 0 comes from a float between 0.3 and 10 and is exactly
  \<open>\<lfloor>1000 * v\<rfloor>\<close>, so the cast has not wrapped.
\<close>

theorem depth_samples_in_range:
  assumes ok: "alloc \<or> length (depthMap p) = unat (ImageWidth cam * ImageHeight cam)"
    and len: "unat (ImageWidth cam * ImageHeight cam) \<le> length (DepthData cam)"
    and num: "\<forall>j < unat (ImageWidth cam * ImageHeight cam). f32_val (DepthData cam ! j) \<noteq> NaN"
  shows "\<exists>p'. OnNewDepthFrame cam clk alloc p = Inr p' \<and>
           length (depthMap p') = unat (ImageWidth cam * ImageHeight cam) \<and>
           (\<forall>s \<in> set (depthMap p'). s = 0 \<or> (300 \<le> s \<and> s \<le> 10000)) \<and>
           (\<forall>j < unat (ImageWidth cam * ImageHeight cam). depthMap p' ! j \<noteq> 0 \<longrightarrow>
              (\<exists>x. f32_val (DepthData cam ! j) = Fin x \<and> 3 / 10 \<le> x \<and> x \<le> 10 \<and>
                   uint (depthMap p' ! j) = \<lfloor>1000 * x\<rfloor>))"
proof -
  have "\<forall>j < unat (ImageWidth cam * ImageHeight cam). encode (DepthData cam ! j) \<noteq> None"
    using num encode_defined_iff by blast
  then obtain p' where run: "OnNewDepthFrame cam clk alloc p = Inr p'"
    using OnNewDepthFrame_total[OF ok len, of clk] by blast
  show ?thesis
    using run OnNewDepthFrame_result(1)[OF run ok] depth_samples_of_completed_frame[OF run ok]
    by blast
qed

theorem depth_samples_in_range_witness:
  "unat (ImageWidth (scenario_cam 4) * ImageHeight (scenario_cam 4))
     \<le> length (DepthData (scenario_cam 4)) \<and>
   f32_val (DepthData (scenario_cam 4) ! 0) \<noteq> NaN \<and>
   f32_val (DepthData (scenario_cam 4) ! 1) \<noteq> NaN \<and>
   f32_val (DepthData (scenario_cam 4) ! 2) \<noteq> NaN \<and>
   f32_val (DepthData (scenario_cam 4) ! 3) \<noteq> NaN \<and>
   OnNewDepthFrame (scenario_cam 4) ticking_clock True RealSensePlugin
     = Inr (RealSensePlugin\<lparr>depthMap := [500, 0, 0, 9998], resizes := 1,
              published := [(depthViewPub, view_msg (scenario_cam 4) (ticking_clock 0)),
                 (depthPub, device_msg (scenario_cam 4) (ticking_clock 1) [500, 0, 0, 9998])]\<rparr>) \<and>
   300 \<le> (9998 :: u16) \<and> (9998 :: u16) \<le> 10000"
proof -
  have run: "OnNewDepthFrame (scenario_cam 4) ticking_clock True RealSensePlugin
     = Inr (RealSensePlugin\<lparr>depthMap := [500, 0, 0, 9998], resizes := 1,
              published := [(depthViewPub, view_msg (scenario_cam 4) (ticking_clock 0)),
                 (depthPub, device_msg (scenario_cam 4) (ticking_clock 1) [500, 0, 0, 9998])]\<rparr>)"
    using scenario_run[of True RealSensePlugin 4 ticking_clock]
    by (simp add: RealSensePlugin_def)
  have ok: "True \<or> length (depthMap RealSensePlugin)
          = unat (ImageWidth (scenario_cam 4) * ImageHeight (scenario_cam 4))" by simp
  have len: "unat (ImageWidth (scenario_cam 4) * ImageHeight (scenario_cam 4))
               \<le> length (DepthData (scenario_cam 4))"
    by (simp add: scenario_cam_def)
  have each: "f32_val (DepthData (scenario_cam 4) ! 0) \<noteq> NaN"
    "f32_val (DepthData (scenario_cam 4) ! 1) \<noteq> NaN"
    "f32_val (DepthData (scenario_cam 4) ! 2) \<noteq> NaN"
    "f32_val (DepthData (scenario_cam 4) ! 3) \<noteq> NaN"
    by (simp_all add: scenario_cam_def f32_val_simps)
  have num: "\<forall>j < unat (ImageWidth (scenario_cam 4) * ImageHeight (scenario_cam 4)).
               f32_val (DepthData (scenario_cam 4) ! j) \<noteq> NaN"
  proof (intro allI impI)
    fix j :: nat
    assume "j < unat (ImageWidth (scenario_cam 4) * ImageHeight (scenario_cam 4))"
    then have "j < 4" by (simp add: scenario_cam_def)
    then have "j = 0 \<or> j = 1 \<or> j = 2 \<or> j = 3" by linarith
    then show "f32_val (DepthData (scenario_cam 4) ! j) \<noteq> NaN"
      using each by auto
  qed
  from depth_samples_in_range[OF ok len num, of ticking_clock]
  obtain p' where p': "OnNewDepthFrame (scenario_cam 4) ticking_clock True RealSensePlugin = Inr p'"
    and rng: "\<forall>s \<in> set (depthMap p'). s = 0 \<or> (300 \<le> s \<and> s \<le> 10000)"
    by blast
  have "p' = RealSensePlugin\<lparr>depthMap := [500, 0, 0, 9998], resizes := 1,
              published := [(depthViewPub, view_msg (scenario_cam 4) (ticking_clock 0)),
                 (depthPub, device_msg (scenario_cam 4) (ticking_clock 1) [500, 0, 0, 9998])]\<rparr>"
    using p' run by simp
  then have "depthMap p' = [500, 0, 0, 9998]" by simp
  then have "(9998 :: u16) = 0 \<or> (300 \<le> (9998 :: u16) \<and> (9998 :: u16) \<le> 10000)"
    using rng by simp
  then have "300 \<le> (9998 :: u16) \<and> (9998 :: u16) \<le> 10000" by simp
  then show ?thesis using run len each by simp
qed

end
